theory Spec2Isabelle
  imports Complex_Main
begin

section \<open>Strings and numbers of the JavaScript source\<close>

text \<open>
  A JavaScript string is a sequence of UTF-16 code units. Every string literal of the two
  source files stays inside Latin-1, so a code unit is modelled by a \<^typ>\<open>char\<close> and the
  accented letters of the Portuguese messages are written by their code unit
  (\<open>CHR 0xF3\<close> is the letter o with an acute accent).
\<close>

text \<open>\<^verbatim>\<open>String.prototype.endsWith\<close>: the last \<open>length suf\<close> code units of \<open>s\<close> are \<open>suf\<close>.\<close>

definition endsWith :: "string \<Rightarrow> string \<Rightarrow> bool" where
  "endsWith s suf =
     (length suf \<le> length s \<and> drop (length s - length suf) s = suf)"

text \<open>
  The truthiness test \<^verbatim>\<open>!v\<close> on a body field that is a JSON string or absent:
  \<^verbatim>\<open>undefined\<close> and the empty string are falsy.
\<close>

definition falsy :: "string option \<Rightarrow> bool" where
  "falsy v = (case v of None \<Rightarrow> True | Some s \<Rightarrow> s = [])"

text \<open>
  IEEE 754 binary64 arithmetic, round to nearest, ties to even, on the reals: the result of
  an operation is the exact result rounded to 53 significant bits (to a multiple of
  \<open>2 powi (- 1074)\<close> in the subnormal range). Overflow to infinity is left out: the
  generator stays below \<open>2 ^ 20\<close>.
\<close>

definition round_half_even :: "real \<Rightarrow> int" where
  "round_half_even y =
     (let f = \<lfloor>y\<rfloor>; d = y - of_int f
      in if d < 1 / 2 then f
         else if 1 / 2 < d then f + 1
         else if even f then f else f + 1)"

definition double_exponent :: "real \<Rightarrow> int" where
  "double_exponent x = max (\<lfloor>log 2 \<bar>x\<bar>\<rfloor> - 52) (- 1074)"

definition double_round :: "real \<Rightarrow> real" where
  "double_round x =
     (if x = 0 then 0
      else of_int (round_half_even (x / 2 powi double_exponent x)) * 2 powi double_exponent x)"

definition is_double :: "real \<Rightarrow> bool" where
  "is_double x = (double_round x = x)"

definition double_mul :: "real \<Rightarrow> real \<Rightarrow> real" where
  "double_mul x y = double_round (x * y)"

definition double_add :: "real \<Rightarrow> real \<Rightarrow> real" where
  "double_add x y = double_round (x + y)"

text \<open>\<^verbatim>\<open>Number.prototype.toString\<close> on an integer-valued number below \<open>10 ^ 21\<close>.\<close>

definition digit_char :: "nat \<Rightarrow> char" where
  "digit_char d = ''0123456789'' ! (d mod 10)"

fun nat_toString :: "nat \<Rightarrow> string" where
  "nat_toString n =
     (if n < 10 then [digit_char n] else nat_toString (n div 10) @ [digit_char (n mod 10)])"

declare nat_toString.simps [simp del]

definition int_toString :: "int \<Rightarrow> string" where
  "int_toString i =
     (if i < 0 then CHR ''-'' # nat_toString (nat (- i)) else nat_toString (nat i))"

section \<open>The code generator\<close>

text \<open>
  \<^verbatim>\<open>Math.floor(100000 + Math.random() * 900000).toString()\<close>, as a function of the
  draw \<open>r\<close> that \<^verbatim>\<open>Math.random()\<close> returns (a double with \<open>0 \<le> r < 1\<close>).
\<close>

definition generateVerificationCode :: "real \<Rightarrow> string" where
  "generateVerificationCode r =
     int_toString \<lfloor>double_add 100000 (double_mul r 900000)\<rfloor>"

section \<open>The tables\<close>

record user =
  u_id :: string
  u_name :: string
  u_email :: string
  u_department :: string
  u_password :: "string option"
  u_isActive :: bool
  u_createdAt :: int

record verificationCode =
  vc_id :: string
  vc_email :: string
  vc_code :: string
  vc_expiresAt :: int
  vc_used :: bool
  vc_createdAt :: int

text \<open>
  A table is the list of its rows in the order a \<^verbatim>\<open>select\<close> returns them. Timestamps
  are milliseconds since the epoch.
\<close>

record db =
  users :: "user list"
  verificationCodes :: "verificationCode list"

section \<open>What a request gets from outside\<close>

text \<open>
  \<open>now\<close> is what \<^verbatim>\<open>Date.now()\<close> or \<^verbatim>\<open>new Date()\<close> reads, \<open>random\<close> the draw of
  \<^verbatim>\<open>Math.random()\<close>, \<open>newId\<close> and \<open>dbNow\<close> the column defaults
  \<^verbatim>\<open>gen_random_uuid()\<close> and \<^verbatim>\<open>defaultNow()\<close> that the database fills in.
  \<open>dbFails k\<close> is the \<^verbatim>\<open>error.message\<close> with which the \<open>k\<close>-th awaited database call
  of the handler rejects, if it does. \<open>transporter\<close> is the module's variable of this
  name, the mail transport, \<open>None\<close> while it is \<^verbatim>\<open>undefined\<close>; applied to the
  recipient and the code it tells whether \<^verbatim>\<open>sendMail\<close> resolves. \<open>nodeEnv\<close>,
  \<open>databaseUrl\<close>, \<open>smtpUser\<close> and \<open>smtpPass\<close> are \<^verbatim>\<open>process.env.NODE_ENV\<close>,
  \<^verbatim>\<open>DATABASE_URL\<close>, \<^verbatim>\<open>SMTP_USER\<close> and \<^verbatim>\<open>SMTP_PASS\<close>.
\<close>

record env =
  now :: int
  random :: real
  newId :: string
  dbNow :: int
  dbFails :: "nat \<Rightarrow> string option"
  transporter :: "(string \<Rightarrow> string \<Rightarrow> bool) option"
  nodeEnv :: "string option"
  databaseUrl :: "string option"
  smtpUser :: "string option"
  smtpPass :: "string option"

text \<open>The request body: each field is a JSON string, or absent.\<close>

record body =
  email :: "string option"
  code :: "string option"

record mock_user =
  mu_id :: string
  mu_name :: string
  mu_email :: string
  mu_department :: string

text \<open>
  The JSON objects the handlers answer with, one constructor for each shape; the
  arguments are the values of the keys in the order of the source.
\<close>

datatype json =
  Message string
  | MessageDebugCode string string
  | UserJson "user option"
  | NoBody
  | Health int string string string string
  | MessageReceived string body
  | MockLogin string string string string
  | MockVerified mock_user string
  | NotFound string string string "string list"
  | InternalError string string bool

record response =
  status :: nat
  json :: json

record outcome =
  out_db :: db
  out_session :: "string option"
  out_res :: response

section \<open>Database calls\<close>

text \<open>
  Each call is one awaited promise: \<open>Inl\<close> the message of the rejection, \<open>Inr\<close> the
  result. A comparison with an absent (\<^verbatim>\<open>undefined\<close>, bound as NULL) parameter matches
  no row.
\<close>

definition select_users_by_email ::
  "env \<Rightarrow> nat \<Rightarrow> db \<Rightarrow> string option \<Rightarrow> string + user list" where
  "select_users_by_email e k d em =
     (case dbFails e k of
        Some msg \<Rightarrow> Inl msg
      | None \<Rightarrow> Inr (filter (\<lambda>u. Some (u_email u) = em) (users d)))"

definition select_verificationCodes ::
  "env \<Rightarrow> nat \<Rightarrow> db \<Rightarrow> string option \<Rightarrow> string option \<Rightarrow> string + verificationCode list" where
  "select_verificationCodes e k d em c =
     (case dbFails e k of
        Some msg \<Rightarrow> Inl msg
      | None \<Rightarrow>
          Inr (filter (\<lambda>r. Some (vc_email r) = em \<and> Some (vc_code r) = c \<and>
                            vc_used r = False \<and> vc_expiresAt r > now e)
                 (verificationCodes d)))"

definition pkey_violation :: string where
  "pkey_violation = ''duplicate key value violates unique constraint''"

text \<open>
  The insert names three columns; \<open>id\<close>, \<open>used\<close> and \<open>createdAt\<close> take their defaults.
  \<open>id\<close> is the primary key: a row whose id is taken is refused.
\<close>

definition insert_verificationCode ::
  "env \<Rightarrow> nat \<Rightarrow> db \<Rightarrow> string \<Rightarrow> string \<Rightarrow> int \<Rightarrow> string + db" where
  "insert_verificationCode e k d em c expiresAt =
     (case dbFails e k of
        Some msg \<Rightarrow> Inl msg
      | None \<Rightarrow>
          if newId e \<in> set (map vc_id (verificationCodes d)) then Inl pkey_violation
          else Inr (d\<lparr>verificationCodes := verificationCodes d @
                 [\<lparr>vc_id = newId e, vc_email = em, vc_code = c, vc_expiresAt = expiresAt,
                   vc_used = False, vc_createdAt = dbNow e\<rparr>]\<rparr>))"

definition update_used :: "env \<Rightarrow> nat \<Rightarrow> db \<Rightarrow> string \<Rightarrow> string + db" where
  "update_used e k d i =
     (case dbFails e k of
        Some msg \<Rightarrow> Inl msg
      | None \<Rightarrow>
          Inr (d\<lparr>verificationCodes :=
                 map (\<lambda>r. if vc_id r = i then r\<lparr>vc_used := True\<rparr> else r)
                   (verificationCodes d)\<rparr>))"

section \<open>The Express application\<close>

definition msg_domain :: string where
  "msg_domain = ''Email deve ser do dom'' @ [CHR 0xED] @ ''nio @nextest.com.br''"

definition msg_user_not_found :: string where
  "msg_user_not_found =
     ''Usu'' @ [CHR 0xE1] @ ''rio n'' @ [CHR 0xE3] @ ''o encontrado. Crie uma conta primeiro.''"

definition msg_sent :: string where
  "msg_sent = ''C'' @ [CHR 0xF3] @ ''digo de verifica'' @ [CHR 0xE7, CHR 0xE3] @ ''o enviado''"

definition msg_not_sent :: string where
  "msg_not_sent =
     ''C'' @ [CHR 0xF3] @ ''digo gerado (email n'' @ [CHR 0xE3] @ ''o enviado)''"

definition msg_invalid_code :: string where
  "msg_invalid_code =
     ''C'' @ [CHR 0xF3] @ ''digo inv'' @ [CHR 0xE1] @ ''lido ou expirado''"

text \<open>
  \<^verbatim>\<open>sendVerificationCode\<close>: \<open>True\<close> when the call returns, \<open>False\<close> when it throws.
  Without a transporter it logs the code and returns.
\<close>

definition sendVerificationCode :: "env \<Rightarrow> string \<Rightarrow> string \<Rightarrow> bool" where
  "sendVerificationCode e em c =
     (case transporter e of None \<Rightarrow> True | Some sendMail \<Rightarrow> sendMail em c)"

text \<open>
  The module sets \<open>transporter\<close> once, when it is loaded: only with both SMTP
  credentials set, and then by calling \<^verbatim>\<open>nodemailer.createTransporter\<close>. The library
  is what the module gets from outside: \<open>nodemailer name\<close> is the transporter that the
  export \<open>name\<close> builds from \<^verbatim>\<open>emailConfig\<close>, \<open>None\<close> when the library has no export
  of this name. Calling a missing export throws a TypeError and the module does not
  load (\<open>Inl\<close>).
\<close>

definition not_a_function :: string where
  "not_a_function = ''nodemailer.createTransporter is not a function''"

definition module_transporter ::
  "(string \<Rightarrow> (string \<Rightarrow> string \<Rightarrow> bool) option) \<Rightarrow> env
     \<Rightarrow> string + (string \<Rightarrow> string \<Rightarrow> bool) option" where
  "module_transporter nodemailer e =
     (if \<not> falsy (smtpUser e) \<and> \<not> falsy (smtpPass e) then
        (case nodemailer ''createTransporter'' of
           None \<Rightarrow> Inl not_a_function
         | Some t \<Rightarrow> Inr (Some t))
      else Inr None)"


text \<open>\<^verbatim>\<open>POST /api/auth/login\<close>. \<^verbatim>\<open>res.json\<close> without \<^verbatim>\<open>res.status\<close> answers 200.\<close>

definition login :: "env \<Rightarrow> db \<Rightarrow> body \<Rightarrow> db \<times> response" where
  "login e d b =
     (case email b of
        None \<Rightarrow> (d, \<lparr>status = 400, json = Message msg_domain\<rparr>)
      | Some em \<Rightarrow>
          (if em = [] \<or> \<not> endsWith em ''@nextest.com.br''
           then (d, \<lparr>status = 400, json = Message msg_domain\<rparr>)
           else
             (case select_users_by_email e 0 d (Some em) of
                Inl msg \<Rightarrow> (d, \<lparr>status = 400, json = Message msg\<rparr>)
              | Inr [] \<Rightarrow> (d, \<lparr>status = 404, json = Message msg_user_not_found\<rparr>)
              | Inr (user # _) \<Rightarrow>
                  (let c = generateVerificationCode (random e);
                       expiresAt = now e + 10 * 60 * 1000
                   in (case insert_verificationCode e 1 d em c expiresAt of
                         Inl msg \<Rightarrow> (d, \<lparr>status = 400, json = Message msg\<rparr>)
                       | Inr d' \<Rightarrow>
                           (if sendVerificationCode e em c
                            then (d', \<lparr>status = 200, json = Message msg_sent\<rparr>)
                            else (d', \<lparr>status = 200,
                                       json = MessageDebugCode msg_not_sent c\<rparr>)))))))"

text \<open>
  \<^verbatim>\<open>POST /api/auth/verify\<close>, with the session's \<open>userId\<close> passed in and returned.
\<close>

definition verify :: "env \<Rightarrow> db \<Rightarrow> string option \<Rightarrow> body \<Rightarrow> outcome" where
  "verify e d sess b =
     (case select_verificationCodes e 0 d (email b) (code b) of
        Inl msg \<Rightarrow>
          \<lparr>out_db = d, out_session = sess, out_res = \<lparr>status = 400, json = Message msg\<rparr>\<rparr>
      | Inr [] \<Rightarrow>
          \<lparr>out_db = d, out_session = sess,
           out_res = \<lparr>status = 400, json = Message msg_invalid_code\<rparr>\<rparr>
      | Inr (verificationCode # _) \<Rightarrow>
          (case update_used e 1 d (vc_id verificationCode) of
             Inl msg \<Rightarrow>
               \<lparr>out_db = d, out_session = sess,
                out_res = \<lparr>status = 400, json = Message msg\<rparr>\<rparr>
           | Inr d' \<Rightarrow>
               (case select_users_by_email e 2 d' (email b) of
                  Inl msg \<Rightarrow>
                    \<lparr>out_db = d', out_session = sess,
                     out_res = \<lparr>status = 400, json = Message msg\<rparr>\<rparr>
                | Inr us \<Rightarrow>
                    let user = (case us of [] \<Rightarrow> None | u # _ \<Rightarrow> Some u)
                    in \<lparr>out_db = d', out_session = map_option u_id user,
                        out_res = \<lparr>status = 200, json = UserJson user\<rparr>\<rparr>)))"

section \<open>The serverless handler\<close>

text \<open>
  The request as the handler reads it: the method, the path name that \<^verbatim>\<open>new URL\<close>
  parses (\<open>Inl\<close> the message of the error it throws), and the parsed body, if any.
\<close>

record request =
  "method" :: string
  pathname :: "string + string"
  req_body :: "body option"

definition mock_email_required :: string where
  "mock_email_required = ''Email '' @ [CHR 0xE9] @ '' obrigat'' @ [CHR 0xF3] @ ''rio''"

definition mock_generated :: string where
  "mock_generated =
     ''C'' @ [CHR 0xF3] @ ''digo de verifica'' @ [CHR 0xE7, CHR 0xE3] @ ''o gerado (mock)''"

definition mock_note :: string where
  "mock_note =
     ''Este '' @ [CHR 0xE9] @ '' um teste - banco n'' @ [CHR 0xE3] @ ''o conectado ainda''"

definition mock_both_required :: string where
  "mock_both_required =
     ''Email e c'' @ [CHR 0xF3] @ ''digo s'' @ [CHR 0xE3] @ ''o obrigat'' @ [CHR 0xF3] @ ''rios''"

definition mock_six_digits :: string where
  "mock_six_digits = ''C'' @ [CHR 0xF3] @ ''digo deve ter 6 d'' @ [CHR 0xED] @ ''gitos''"

definition mock_name :: string where
  "mock_name = ''Usu'' @ [CHR 0xE1] @ ''rio Teste''"

definition mock_logged_in :: string where
  "mock_logged_in = ''Login realizado (mock)''"

definition mock_not_found :: string where
  "mock_not_found = ''Endpoint n'' @ [CHR 0xE3] @ ''o encontrado''"

definition mock_internal :: string where
  "mock_internal = ''Erro interno do servidor''"

text \<open>\<^verbatim>\<open>v ? a : b\<close> and \<^verbatim>\<open>v || b\<close> on an environment variable.\<close>

definition configured :: "string option \<Rightarrow> string" where
  "configured v = (if falsy v then ''not configured'' else ''configured'')"

definition handler :: "env \<Rightarrow> request \<Rightarrow> response" where
  "handler e req =
     (if method req = ''OPTIONS'' then \<lparr>status = 200, json = NoBody\<rparr>
      else
        (case pathname req of
           Inl msg \<Rightarrow>
             \<lparr>status = 500,
              json = InternalError mock_internal msg (nodeEnv e = Some ''development'')\<rparr>
         | Inr path \<Rightarrow>
             (if path = ''/api/health'' then
                \<lparr>status = 200,
                 json = Health (now e)
                   (if falsy (nodeEnv e) then ''unknown'' else the (nodeEnv e))
                   (configured (databaseUrl e)) (configured (smtpUser e)) path\<rparr>
              else if path = ''/api/auth/login'' \<and> method req = ''POST'' then
                (let b = (case req_body req of
                            None \<Rightarrow> \<lparr>email = None, code = None\<rparr> | Some b \<Rightarrow> b)
                 in (case email b of
                       None \<Rightarrow> \<lparr>status = 400, json = MessageReceived mock_email_required b\<rparr>
                     | Some em \<Rightarrow>
                         (if em = [] then
                            \<lparr>status = 400, json = MessageReceived mock_email_required b\<rparr>
                          else if \<not> endsWith em ''@nextest.com.br'' then
                            \<lparr>status = 400, json = Message msg_domain\<rparr>
                          else
                            \<lparr>status = 200,
                             json = MockLogin mock_generated
                               (generateVerificationCode (random e)) em mock_note\<rparr>)))
              else if path = ''/api/auth/verify'' \<and> method req = ''POST'' then
                (let b = (case req_body req of
                            None \<Rightarrow> \<lparr>email = None, code = None\<rparr> | Some b \<Rightarrow> b)
                 in (if falsy (email b) \<or> falsy (code b) then
                       \<lparr>status = 400, json = Message mock_both_required\<rparr>
                     else if length (the (code b)) \<noteq> 6 then
                       \<lparr>status = 400, json = Message mock_six_digits\<rparr>
                     else
                       \<lparr>status = 200,
                        json = MockVerified
                          \<lparr>mu_id = ''1'', mu_name = mock_name, mu_email = the (email b),
                           mu_department = ''TI''\<rparr>
                          mock_logged_in\<rparr>))
              else
                \<lparr>status = 404,
                 json = NotFound mock_not_found path (method req)
                   [''/api/health'', ''/api/auth/login'', ''/api/auth/verify'']\<rparr>)))"

section \<open>Requests one after the other\<close>

text \<open>
  A client sends login and verify requests against the same database; each request
  comes with what it gets from outside, and a verify request with its session.
\<close>

datatype call =
  Login env body
  | Verify env "string option" body

fun apply_call :: "call \<Rightarrow> db \<Rightarrow> db" where
  "apply_call (Login e b) d = fst (login e d b)"
| "apply_call (Verify e sess b) d = out_db (verify e d sess b)"

definition run :: "call list \<Rightarrow> db \<Rightarrow> db" where
  "run cs d = fold apply_call cs d"

section \<open>Two verify requests at once\<close>

text \<open>
  The verify handler gives control back at each of its three \<^verbatim>\<open>await\<close>s, and another
  request may run in between. \<open>verify_step\<close> runs the handler from one \<^verbatim>\<open>await\<close> to
  the next: the select of the matching rows, the update of the first of them, the
  select of the user with the answer.
\<close>

datatype verify_pc =
  At_select
  | At_update verificationCode
  | At_user
  | Answered response

definition verify_step ::
  "env \<Rightarrow> body \<Rightarrow> db \<times> string option \<times> verify_pc \<Rightarrow> db \<times> string option \<times> verify_pc" where
  "verify_step e b c =
     (case c of (d, sess, pc) \<Rightarrow>
        (case pc of
           At_select \<Rightarrow>
             (case select_verificationCodes e 0 d (email b) (code b) of
                Inl msg \<Rightarrow> (d, sess, Answered \<lparr>status = 400, json = Message msg\<rparr>)
              | Inr [] \<Rightarrow>
                  (d, sess, Answered \<lparr>status = 400, json = Message msg_invalid_code\<rparr>)
              | Inr (verificationCode # _) \<Rightarrow> (d, sess, At_update verificationCode))
         | At_update verificationCode \<Rightarrow>
             (case update_used e 1 d (vc_id verificationCode) of
                Inl msg \<Rightarrow> (d, sess, Answered \<lparr>status = 400, json = Message msg\<rparr>)
              | Inr d' \<Rightarrow> (d', sess, At_user))
         | At_user \<Rightarrow>
             (case select_users_by_email e 2 d (email b) of
                Inl msg \<Rightarrow> (d, sess, Answered \<lparr>status = 400, json = Message msg\<rparr>)
              | Inr us \<Rightarrow>
                  (let user = (case us of [] \<Rightarrow> None | u # _ \<Rightarrow> Some u)
                   in (d, map_option u_id user,
                       Answered \<lparr>status = 200, json = UserJson user\<rparr>)))
         | Answered r \<Rightarrow> (d, sess, Answered r)))"

text \<open>
  Two requests \<open>(e1, b1)\<close> and \<open>(e2, b2)\<close> share the database; a schedule says which of
  them takes the next step.
\<close>

datatype turn = First | Second

record config =
  shared :: db
  first_session :: "string option"
  first_pc :: verify_pc
  second_session :: "string option"
  second_pc :: verify_pc

definition turn_step :: "env \<times> body \<Rightarrow> env \<times> body \<Rightarrow> turn \<Rightarrow> config \<Rightarrow> config" where
  "turn_step r1 r2 t c =
     (case t of
        First \<Rightarrow>
          (case verify_step (fst r1) (snd r1) (shared c, first_session c, first_pc c) of
             (d, sess, pc) \<Rightarrow> c\<lparr>shared := d, first_session := sess, first_pc := pc\<rparr>)
      | Second \<Rightarrow>
          (case verify_step (fst r2) (snd r2) (shared c, second_session c, second_pc c) of
             (d, sess, pc) \<Rightarrow> c\<lparr>shared := d, second_session := sess, second_pc := pc\<rparr>))"

definition interleave ::
  "turn list \<Rightarrow> env \<times> body \<Rightarrow> env \<times> body \<Rightarrow> config \<Rightarrow> config" where
  "interleave sched r1 r2 c = fold (turn_step r1 r2) sched c"

definition start :: "db \<Rightarrow> string option \<Rightarrow> string option \<Rightarrow> config" where
  "start d s1 s2 =
     \<lparr>shared = d, first_session = s1, first_pc = At_select,
      second_session = s2, second_pc = At_select\<rparr>"

text \<open>The same run with the two requests renamed.\<close>

fun other :: "turn \<Rightarrow> turn" where
  "other First = Second"
| "other Second = First"

definition mirror :: "config \<Rightarrow> config" where
  "mirror c =
     \<lparr>shared = shared c, first_session = second_session c, first_pc = second_pc c,
      second_session = first_session c, second_pc = first_pc c\<rparr>"

section \<open>Rows that are spent\<close>

text \<open>
  A row id is spent in a table when the table has a row with that id and every row with
  that id is marked used.
\<close>

definition spent :: "string \<Rightarrow> verificationCode list \<Rightarrow> bool" where
  "spent i rows = (i \<in> vc_id ` set rows \<and> (\<forall>r \<in> set rows. vc_id r = i \<longrightarrow> vc_used r))"

section \<open>Example data\<close>

definition env0 :: env where
  "env0 = \<lparr>now = 1000, random = 1 / 2, newId = ''c-2'', dbNow = 1000,
           dbFails = (\<lambda>k. None), transporter = None, nodeEnv = None,
           databaseUrl = None, smtpUser = None, smtpPass = None\<rparr>"

definition env_later :: env where
  "env_later = env0\<lparr>now := 2000, random := 1 / 4, newId := ''c-3''\<rparr>"

definition env_same_draw :: env where
  "env_same_draw = env0\<lparr>now := 2000, newId := ''c-3''\<rparr>"

definition env_expired :: env where
  "env_expired = env0\<lparr>now := 601000\<rparr>"



definition ana :: user where
  "ana = \<lparr>u_id = ''u-1'', u_name = ''Ana'', u_email = ''ana@nextest.com.br'',
          u_department = ''TI'', u_password = None, u_isActive = False, u_createdAt = 0\<rparr>"

definition ana_code :: verificationCode where
  "ana_code =
     \<lparr>vc_id = ''c-2'', vc_email = ''ana@nextest.com.br'', vc_code = ''550000'',
      vc_expiresAt = 601000, vc_used = False, vc_createdAt = 1000\<rparr>"

definition db_empty :: db where
  "db_empty = \<lparr>users = [ana], verificationCodes = []\<rparr>"

definition db_one :: db where
  "db_one = \<lparr>users = [ana], verificationCodes = [ana_code]\<rparr>"

definition ana_login :: body where
  "ana_login = \<lparr>email = Some ''ana@nextest.com.br'', code = None\<rparr>"

definition bia_login :: body where
  "bia_login = \<lparr>email = Some ''bia@nextest.com.br'', code = None\<rparr>"

definition ana_verify :: body where
  "ana_verify = \<lparr>email = Some ''ana@nextest.com.br'', code = Some ''550000''\<rparr>"

definition ana_wrong_code :: body where
  "ana_wrong_code = \<lparr>email = Some ''ana@nextest.com.br'', code = Some ''654321''\<rparr>"

definition mock_verify_request :: request where
  "mock_verify_request =
     \<lparr>method = ''POST'', pathname = Inr ''/api/auth/verify'',
      req_body = Some \<lparr>email = Some ''x'', code = Some ''abcdef''\<rparr>\<rparr>"

section \<open>Rounding to a double\<close>

lemma round_half_even_le:
  assumes "y < of_int m + 1 / 2"
  shows "round_half_even y \<le> m"
proof -
  have "\<lfloor>y\<rfloor> \<le> m" using assms by linarith
  then consider "\<lfloor>y\<rfloor> \<le> m - 1" | "\<lfloor>y\<rfloor> = m" by linarith
  then show ?thesis
  proof cases
    case 1
    then show ?thesis by (simp add: round_half_even_def Let_def)
  next
    case 2
    with assms have "y - of_int \<lfloor>y\<rfloor> < 1 / 2" by simp
    with 2 show ?thesis by (simp add: round_half_even_def Let_def)
  qed
qed

lemma round_half_even_ge:
  assumes "of_int m \<le> y"
  shows "m \<le> round_half_even y"
proof -
  have "m \<le> \<lfloor>y\<rfloor>" using assms by linarith
  then show ?thesis by (simp add: round_half_even_def Let_def)
qed

lemma double_round_le:
  assumes "x \<noteq> 0" and "x < (of_int m + 1 / 2) * 2 powi double_exponent x"
  shows "double_round x \<le> of_int m * 2 powi double_exponent x"
proof -
  let ?p = "(2::real) powi double_exponent x"
  have p: "0 < ?p" by simp
  from assms(2) p have "x / ?p < of_int m + 1 / 2"
    by (simp add: pos_divide_less_eq)
  then have "round_half_even (x / ?p) \<le> m" by (rule round_half_even_le)
  then have "of_int (round_half_even (x / ?p)) * ?p \<le> of_int m * ?p"
    using p by (simp add: mult_right_mono)
  with assms(1) show ?thesis by (simp add: double_round_def)
qed

lemma double_round_ge:
  assumes "x \<noteq> 0" and "of_int m * 2 powi double_exponent x \<le> x"
  shows "of_int m * 2 powi double_exponent x \<le> double_round x"
proof -
  let ?p = "(2::real) powi double_exponent x"
  have p: "0 < ?p" by simp
  from assms(2) p have "of_int m \<le> x / ?p"
    by (simp add: pos_le_divide_eq)
  then have "m \<le> round_half_even (x / ?p)" by (rule round_half_even_ge)
  then have "of_int m * ?p \<le> of_int (round_half_even (x / ?p)) * ?p"
    using p by (simp add: mult_right_mono)
  with assms(1) show ?thesis by (simp add: double_round_def)
qed

lemma double_exponent_eq:
  assumes "2 powi k \<le> x" and "x < 2 powi (k + 1)" and "- 1022 \<le> k"
  shows "double_exponent x = k - 52"
proof -
  have "(0::real) < 2 powi k" by simp
  with assms(1) have x: "0 < x" by linarith
  have "(2::real) powr of_int k = 2 powi k" "(2::real) powr (of_int k + 1) = 2 powi (k + 1)"
    using powr_real_of_int' [of "2::real" k] powr_real_of_int' [of "2::real" "k + 1"] by simp_all
  with assms have "\<lfloor>log 2 x\<rfloor> = k"
    using x by (simp add: floor_log_eq_powr_iff)
  with x assms(3) show ?thesis by (simp add: double_exponent_def)
qed

lemma double_exponent_less:
  assumes "0 < x" and "x < 2 powi k"
  shows "double_exponent x \<le> max (k - 53) (- 1074)"
proof -
  have "(2::real) powr of_int k = 2 powi k"
    using powr_real_of_int' [of "2::real" k] by simp
  with assms have "log 2 x < of_int k"
    by (simp add: log_less_iff)
  then have "\<lfloor>log 2 x\<rfloor> < k" by linarith
  with assms(1) show ?thesis by (simp add: double_exponent_def)
qed

text \<open>An integer is on every grid with a non-positive exponent.\<close>

lemma int_on_grid:
  assumes "q \<le> 0"
  shows "(of_int n :: real) = of_int (n * 2 ^ nat (- q)) * 2 powi q"
proof -
  have "(2::real) powi q = 1 / 2 ^ nat (- q)"
    using assms by (simp add: power_int_def field_simps)
  then show ?thesis by simp
qed

lemma double_below_one:
  assumes "is_double r" and "r < 1" and "0 \<le> r"
  shows "r \<le> 1 - 2 powi (- 53)"
proof (cases "r < 1 / 2")
  case True
  then show ?thesis by (simp add: power_int_minus)
next
  case False
  then have "2 powi (- 1) \<le> r" by (simp add: power_int_minus)
  moreover have "r < 2 powi (- 1 + 1)" using assms(2) by simp
  ultimately have q: "double_exponent r = - 53"
    using double_exponent_eq [of "- 1" r] by simp
  from False have r0: "r \<noteq> 0" by auto
  define M where "M = round_half_even (r / 2 powi (- 53))"
  from assms(1) r0 q have r: "r = of_int M * 2 powi (- 53)"
    by (simp add: is_double_def double_round_def M_def)
  with assms(2) have "of_int M < (2::real) ^ 53"
    by (simp add: power_int_minus field_simps)
  then have "M < 2 ^ 53" by simp
  then have "M \<le> 2 ^ 53 - 1" by simp
  then have "(of_int M :: real) \<le> of_int (2 ^ 53 - 1)" by (simp only: of_int_le_iff)
  then have "(of_int M :: real) \<le> 2 ^ 53 - 1" by simp
  then have "of_int M * 2 powi (- 53) \<le> ((2::real) ^ 53 - 1) * 2 powi (- 53)"
    by (simp add: mult_right_mono)
  also have "\<dots> = 1 - 2 powi (- 53)"
    by (simp add: power_int_minus field_simps)
  finally show ?thesis using r by simp
qed

lemma double_round_nonneg: "0 \<le> x \<Longrightarrow> 0 \<le> double_round x"
  using double_round_ge [of x 0] by (cases "x = 0") (simp_all add: double_round_def)

lemma double_round_below_pow19:
  assumes "0 < x" and "x < 2 ^ 19"
  shows "double_round x \<le> 2 ^ 19"
proof -
  define q where "q = double_exponent x"
  have "x < 2 powi 19" using assms(2) by simp
  from double_exponent_less [OF assms(1) this] have "q \<le> 0" by (simp add: q_def)
  from int_on_grid [OF this, of "2 ^ 19"]
  have g: "(2::real) ^ 19 = of_int (2 ^ 19 * 2 ^ nat (- q)) * 2 powi q" by simp
  have "of_int (2 ^ 19 * 2 ^ nat (- q)) * 2 powi q
          \<le> (of_int (2 ^ 19 * 2 ^ nat (- q)) + 1 / 2) * (2::real) powi q"
    by (intro mult_right_mono) simp_all
  with assms(2) g have "x < (of_int (2 ^ 19 * 2 ^ nat (- q)) + 1 / 2) * 2 powi q"
    by linarith
  with assms(1) have "double_round x \<le> of_int (2 ^ 19 * 2 ^ nat (- q)) * 2 powi q"
    unfolding q_def by (intro double_round_le) simp_all
  with g show ?thesis by linarith
qed

lemma double_round_top_binade:
  assumes "2 ^ 19 \<le> x" and "x < 2 ^ 20" and "x < (of_int n + 1 / 2) * 2 powi (- 33)"
  shows "double_round x \<le> of_int n * 2 powi (- 33)"
proof -
  have "2 powi 19 \<le> x" "x < 2 powi (19 + 1)" using assms(1,2) by simp_all
  then have q: "double_exponent x = - 33"
    using double_exponent_eq [of 19 x] by simp
  have "x \<noteq> 0" using assms(1) by auto
  from double_round_le [OF this, of n] assms(3) show ?thesis
    unfolding q by simp
qed

lemma powi_m33: "(2::real) powi (- 33) = 1 / 8589934592"
  by (simp add: power_int_minus_divide)

lemma powi_m53: "(2::real) powi (- 53) = 1 / 9007199254740992"
  by (simp add: power_int_minus_divide)

lemma double_mul_bounds:
  assumes "is_double r" and "0 \<le> r" and "r < 1"
  shows "0 \<le> double_mul r 900000 \<and> double_mul r 900000 \<le> 900000 - 2 powi (- 33)"
proof -
  define x where "x = r * 900000"
  have x0: "0 \<le> x" using assms(2) by (simp add: x_def)
  have "r \<le> 1 - 1 / 9007199254740992"
    using double_below_one [OF assms(1,3,2)] by (simp only: powi_m53)
  then have le: "x \<le> 900000 - 900000 / 9007199254740992"
    by (simp add: x_def)
  have upper: "double_round x \<le> 900000 - 2 powi (- 33)"
  proof (cases "x < 2 ^ 19")
    case True
    have "double_round x \<le> 2 ^ 19"
    proof (cases "x = 0")
      case True
      then show ?thesis by (simp add: double_round_def)
    next
      case False
      with x0 have "0 < x" by simp
      from double_round_below_pow19 [OF this True] show ?thesis .
    qed
    then show ?thesis by (simp add: powi_m33)
  next
    case False
    then have a: "2 ^ 19 \<le> x" by simp
    have b: "x < 2 ^ 20" using le by simp
    have "x < (of_int 7730941132799999 + 1 / 2) * 2 powi (- 33)"
      using le by (simp add: powi_m33)
    from double_round_top_binade [OF a b this]
    show ?thesis by (simp add: powi_m33)
  qed
  from double_round_nonneg [OF x0] upper show ?thesis by (simp add: double_mul_def x_def)
qed

lemma double_add_bounds:
  assumes "0 \<le> p" and "p \<le> 900000 - 2 powi (- 33)"
  shows "100000 \<le> double_add 100000 p \<and> double_add 100000 p < 1000000"
proof -
  define y where "y = 100000 + p"
  have y: "100000 \<le> y" "y \<le> 1000000 - 1 / 8589934592" "0 < y" "y \<noteq> 0"
    using assms by (simp_all add: y_def powi_m33)
  define q where "q = double_exponent y"
  have "y < 2 powi 20" using y(2) by simp
  from double_exponent_less [OF y(3) this] have q0: "q \<le> 0" by (simp add: q_def)
  from int_on_grid [OF q0, of 100000]
  have g: "(100000::real) = of_int (100000 * 2 ^ nat (- q)) * 2 powi q" by simp
  have "of_int (100000 * 2 ^ nat (- q)) * 2 powi q \<le> y" using g y(1) by linarith
  from double_round_ge [OF y(4) this [unfolded q_def]]
  have lower: "100000 \<le> double_round y" using g unfolding q_def by linarith
  have upper: "double_round y < 1000000"
  proof (cases "y < 2 ^ 19")
    case True
    from double_round_below_pow19 [OF y(3) True] show ?thesis by simp
  next
    case False
    then have a: "2 ^ 19 \<le> y" by simp
    have b: "y < 2 ^ 20" using y(2) by simp
    have "y < (of_int 8589934591999999 + 1 / 2) * 2 powi (- 33)"
      using y(2) by (simp add: powi_m33)
    from double_round_top_binade [OF a b this]
    show ?thesis by (simp add: powi_m33)
  qed
  from lower upper show ?thesis by (simp add: double_add_def y_def)
qed

lemma generated_number_range:
  assumes "is_double r" and "0 \<le> r" and "r < 1"
  shows "100000 \<le> \<lfloor>double_add 100000 (double_mul r 900000)\<rfloor> \<and>
         \<lfloor>double_add 100000 (double_mul r 900000)\<rfloor> \<le> 999999"
proof -
  from double_mul_bounds [OF assms] double_add_bounds
  have "100000 \<le> double_add 100000 (double_mul r 900000) \<and>
        double_add 100000 (double_mul r 900000) < 1000000" by blast
  then show ?thesis by linarith
qed

section \<open>Decimal rendering\<close>

lemma nat_toString_digits: "set (nat_toString n) \<subseteq> set ''0123456789''"
proof (induction n rule: nat_toString.induct)
  case (1 n)
  have d: "digit_char k \<in> set ''0123456789''" for k
  proof -
    have "k mod 10 < length ''0123456789''" by simp
    then show ?thesis unfolding digit_char_def by (rule nth_mem)
  qed
  show ?case
  proof (cases "n < 10")
    case True
    then show ?thesis using d [of n] by (simp add: nat_toString.simps [of n])
  next
    case False
    with 1 d [of "n mod 10"] show ?thesis
      by (simp add: nat_toString.simps [of n])
  qed
qed

lemma nat_toString_length:
  "10 ^ k \<le> n \<Longrightarrow> n < 10 ^ Suc k \<Longrightarrow> length (nat_toString n) = Suc k"
proof (induction k arbitrary: n)
  case 0
  then show ?case by (simp add: nat_toString.simps [of n])
next
  case (Suc k)
  from Suc.prems have a: "10 ^ k \<le> n div 10"
    by (simp add: less_eq_div_iff_mult_less_eq mult.commute)
  from Suc.prems have b: "n div 10 < 10 ^ Suc k"
    by (simp add: div_less_iff_less_mult mult.commute)
  have "(10::nat) \<le> 10 ^ Suc k" by simp
  with Suc.prems have c: "\<not> n < 10" by linarith
  note a b c
  with Suc.IH [of "n div 10"] show ?case
    by (simp add: nat_toString.simps [of n])
qed

section \<open>Values of the generator\<close>

lemma round_half_even_of_int: "round_half_even (of_int m) = m"
  by (simp add: round_half_even_def)

lemma double_round_of_int:
  assumes "0 < n" and "n < 2 ^ 53"
  shows "double_round (of_int n) = of_int n"
proof -
  define q where "q = double_exponent (of_int n)"
  have "(of_int n :: real) < 2 powi 53" using assms(2) by simp
  with assms(1) have "q \<le> 0"
    using double_exponent_less [of "of_int n" 53] by (simp add: q_def)
  from int_on_grid [OF this, of n]
  have g: "(of_int n :: real) = of_int (n * 2 ^ nat (- q)) * 2 powi q" .
  then have "of_int n / 2 powi q = (of_int (n * 2 ^ nat (- q)) :: real)"
    by (simp add: field_simps)
  then have "round_half_even (of_int n / 2 powi q) = n * 2 ^ nat (- q)"
    by (simp only: round_half_even_of_int)
  with g assms(1) show ?thesis
    by (simp add: double_round_def q_def [symmetric])
qed

lemma is_double_half: "is_double (1 / 2)"
proof -
  have q: "double_exponent (1 / 2) = - 53"
    using double_exponent_eq [of "- 1" "1 / 2"] by (simp add: power_int_minus_divide)
  have "(1 / 2) / (2::real) powi (- 53) = of_int (2 ^ 52)"
    by (simp add: power_int_minus_divide)
  then have "round_half_even ((1 / 2) / 2 powi (- 53)) = 2 ^ 52"
    by (simp only: round_half_even_of_int)
  then show ?thesis
    by (simp add: is_double_def double_round_def q power_int_minus_divide)
qed

lemma generateVerificationCode_half: "generateVerificationCode (1 / 2) = ''550000''"
proof -
  have "double_mul (1 / 2) 900000 = 450000"
    using double_round_of_int [of 450000] by (simp add: double_mul_def)
  moreover have "double_add 100000 450000 = 550000"
    using double_round_of_int [of 550000] by (simp add: double_add_def)
  ultimately show ?thesis
    by (simp add: generateVerificationCode_def int_toString_def nat_toString.simps digit_char_def)
qed

lemma generateVerificationCode_quarter: "generateVerificationCode (1 / 4) = ''325000''"
proof -
  have "double_mul (1 / 4) 900000 = 225000"
    using double_round_of_int [of 225000] by (simp add: double_mul_def)
  moreover have "double_add 100000 225000 = 325000"
    using double_round_of_int [of 325000] by (simp add: double_add_def)
  ultimately show ?thesis
    by (simp add: generateVerificationCode_def int_toString_def nat_toString.simps digit_char_def)
qed

section \<open>What the handlers do to the tables\<close>

lemma filter_eq_ConsD: "filter P xs = x # ys \<Longrightarrow> x \<in> set xs \<and> P x"
proof -
  assume "filter P xs = x # ys"
  then have "x \<in> set (filter P xs)" by simp
  then show ?thesis by simp
qed

lemma verify_rows:
  "verificationCodes (out_db (verify e d s b)) = verificationCodes d \<or>
   (\<exists>x \<in> set (verificationCodes d).
        Some (vc_email x) = email b \<and> Some (vc_code x) = code b \<and>
        \<not> vc_used x \<and> now e < vc_expiresAt x \<and>
        verificationCodes (out_db (verify e d s b)) =
           map (\<lambda>r. if vc_id r = vc_id x then r\<lparr>vc_used := True\<rparr> else r) (verificationCodes d))"
proof (cases "select_verificationCodes e 0 d (email b) (code b)")
  case (Inl a)
  then show ?thesis by (simp add: verify_def)
next
  case (Inr xs)
  show ?thesis
  proof (cases xs)
    case Nil
    with Inr show ?thesis by (simp add: verify_def)
  next
    case (Cons x ys)
    with Inr have "filter (\<lambda>r. Some (vc_email r) = email b \<and> Some (vc_code r) = code b \<and>
                            vc_used r = False \<and> vc_expiresAt r > now e)
                 (verificationCodes d) = x # ys"
      by (simp add: select_verificationCodes_def split: option.splits)
    from filter_eq_ConsD [OF this]
    have x: "x \<in> set (verificationCodes d)" "Some (vc_email x) = email b"
      "Some (vc_code x) = code b" "\<not> vc_used x" "now e < vc_expiresAt x"
      by simp_all
    have "verificationCodes (out_db (verify e d s b)) = verificationCodes d \<or>
          verificationCodes (out_db (verify e d s b)) =
           map (\<lambda>r. if vc_id r = vc_id x then r\<lparr>vc_used := True\<rparr> else r) (verificationCodes d)"
      using Inr Cons
      by (simp add: verify_def update_used_def select_users_by_email_def Let_def
          split: option.splits)
    with x show ?thesis by blast
  qed
qed

lemma login_rows:
  "verificationCodes (fst (login e d b)) = verificationCodes d \<or>
   (\<exists>row. vc_id row \<notin> vc_id ` set (verificationCodes d) \<and>
      verificationCodes (fst (login e d b)) = verificationCodes d @ [row])"
  by (simp add: login_def select_users_by_email_def insert_verificationCode_def Let_def
      split: option.splits list.splits)

lemma spent_append: "spent i rows \<Longrightarrow> vc_id row \<notin> vc_id ` set rows \<Longrightarrow> spent i (rows @ [row])"
  by (auto simp: spent_def)

lemma spent_mark: "spent i rows \<Longrightarrow> spent i (map (\<lambda>r. if vc_id r = j then r\<lparr>vc_used := True\<rparr> else r) rows)"
  by (force simp: spent_def)

lemma mark_spent: "x \<in> set rows \<Longrightarrow> spent (vc_id x) (map (\<lambda>r. if vc_id r = vc_id x then r\<lparr>vc_used := True\<rparr> else r) rows)"
proof -
  assume x: "x \<in> set rows"
  let ?f = "\<lambda>r. if vc_id r = vc_id x then r\<lparr>vc_used := True\<rparr> else r"
  have "map vc_id (map ?f rows) = map vc_id rows" by (induction rows) auto
  then have "set (map vc_id (map ?f rows)) = set (map vc_id rows)" by (rule arg_cong)
  then have "vc_id ` set (map ?f rows) = vc_id ` set rows" by (simp only: set_map)
  with x have "vc_id x \<in> vc_id ` set (map ?f rows)" by blast
  moreover have "\<forall>r \<in> set (map ?f rows). vc_id r = vc_id x \<longrightarrow> vc_used r" by auto
  ultimately show ?thesis unfolding spent_def by blast
qed

lemma spent_apply_call:
  assumes "spent i (verificationCodes d)"
  shows "spent i (verificationCodes (apply_call c d))"
proof (cases c)
  case (Login e b)
  with login_rows [of e d b] assms show ?thesis
    by (auto intro: spent_append)
next
  case (Verify e s b)
  with verify_rows [of e d s b] assms show ?thesis
    by (auto intro: spent_mark)
qed

lemma spent_run: "spent i (verificationCodes d) \<Longrightarrow> spent i (verificationCodes (run cs d))"
  unfolding run_def by (induction cs arbitrary: d) (auto intro: spent_apply_call)

lemma verify_rejects:
  assumes "dbFails e 0 = None"
      and "\<forall>r \<in> set (verificationCodes d).
             \<not> (Some (vc_email r) = email b \<and> Some (vc_code r) = code b \<and>
                \<not> vc_used r \<and> now e < vc_expiresAt r)"
  shows "verify e d s b = \<lparr>out_db = d, out_session = s, out_res = \<lparr>status = 400, json = Message msg_invalid_code\<rparr>\<rparr>"
proof -
  from assms(2) have "filter (\<lambda>r. Some (vc_email r) = email b \<and> Some (vc_code r) = code b \<and>
                            vc_used r = False \<and> vc_expiresAt r > now e) (verificationCodes d) = []"
      by (auto simp: filter_empty_conv)
  with assms(1) show ?thesis
    by (simp add: verify_def select_verificationCodes_def)
qed

lemma verify_ok_rows:
  assumes "status (out_res (verify e d s b)) = 200"
  shows "\<exists>x \<in> set (verificationCodes d).
        Some (vc_email x) = email b \<and> Some (vc_code x) = code b \<and>
        \<not> vc_used x \<and> now e < vc_expiresAt x \<and>
        verificationCodes (out_db (verify e d s b)) =
           map (\<lambda>r. if vc_id r = vc_id x then r\<lparr>vc_used := True\<rparr> else r) (verificationCodes d)"
proof (cases "select_verificationCodes e 0 d (email b) (code b)")
  case (Inl a)
  with assms show ?thesis by (simp add: verify_def)
next
  case (Inr xs)
  show ?thesis
  proof (cases xs)
    case Nil
    with Inr assms show ?thesis by (simp add: verify_def)
  next
    case (Cons x ys)
    with Inr have "filter (\<lambda>r. Some (vc_email r) = email b \<and> Some (vc_code r) = code b \<and>
                            vc_used r = False \<and> vc_expiresAt r > now e)
                 (verificationCodes d) = x # ys"
      by (simp add: select_verificationCodes_def split: option.splits)
    from filter_eq_ConsD [OF this]
    have x: "x \<in> set (verificationCodes d)" "Some (vc_email x) = email b"
      "Some (vc_code x) = code b" "\<not> vc_used x" "now e < vc_expiresAt x"
      by simp_all
    have "verificationCodes (out_db (verify e d s b)) =
           map (\<lambda>r. if vc_id r = vc_id x then r\<lparr>vc_used := True\<rparr> else r) (verificationCodes d)"
      using Inr Cons assms
      by (simp add: verify_def update_used_def select_users_by_email_def Let_def
          split: option.splits)
    with x show ?thesis by blast
  qed
qed

lemma verify_accepts:
  assumes "\<forall>k. dbFails e k = None"
      and "\<exists>r \<in> set (verificationCodes d).
             Some (vc_email r) = email b \<and> Some (vc_code r) = code b \<and>
             \<not> vc_used r \<and> now e < vc_expiresAt r"
  shows "\<exists>u. out_res (verify e d s b) = \<lparr>status = 200, json = UserJson u\<rparr>"
proof -
  let ?P = "\<lambda>r. Some (vc_email r) = email b \<and> Some (vc_code r) = code b \<and>
                 vc_used r = False \<and> vc_expiresAt r > now e"
  from assms(2) have "filter ?P (verificationCodes d) \<noteq> []"
    unfolding filter_empty_conv by blast
  then obtain x xs where "filter ?P (verificationCodes d) = x # xs"
    by (cases "filter ?P (verificationCodes d)") auto
  with assms(1) show ?thesis
    by (simp add: verify_def select_verificationCodes_def update_used_def
        select_users_by_email_def Let_def)
qed

lemma marked_rows_changed:
  assumes "distinct (map vc_id rows)" and "x \<in> set rows" and "i < length rows"
      and "map (\<lambda>r. if vc_id r = vc_id x then r\<lparr>vc_used := True\<rparr> else r) rows ! i \<noteq> rows ! i"
  shows "rows ! i = x"
proof -
  from assms(3,4) have "vc_id (rows ! i) = vc_id x"
    by (auto split: if_splits)
  moreover from assms(1) have "inj_on vc_id (set rows)" by (simp add: distinct_map)
  moreover from assms(3) have "rows ! i \<in> set rows" by simp
  ultimately show ?thesis using assms(2) by (auto dest: inj_onD)
qed

lemma endsWith_nonempty: "endsWith s ''@nextest.com.br'' \<Longrightarrow> s \<noteq> []"
  by (auto simp: endsWith_def)

lemma select_users_isActive:
  "select_users_by_email e k (d\<lparr>users := map (\<lambda>u. u\<lparr>u_isActive := f u\<rparr>) (users d)\<rparr>) em =
   map_sum id (map (\<lambda>u. u\<lparr>u_isActive := f u\<rparr>)) (select_users_by_email e k d em)"
  by (simp add: select_users_by_email_def filter_map comp_def split: option.splits)

lemma insert_isActive:
  "insert_verificationCode e k (d\<lparr>users := us\<rparr>) em c t =
   map_sum id (\<lambda>d'. d'\<lparr>users := us\<rparr>) (insert_verificationCode e k d em c t)"
  by (simp add: insert_verificationCode_def split: option.splits)

section \<open>Mail and users in login\<close>





lemma module_fails_with_credentials:
  assumes "nodemailer ''createTransporter'' = None"
      and "\<not> falsy (smtpUser e)" and "\<not> falsy (smtpPass e)"
  shows "module_transporter nodemailer e = Inl not_a_function"
  using assms by (simp add: module_transporter_def)

lemma login_needs_user:
  "status (snd (login e d b)) = 200 \<Longrightarrow> \<exists>u \<in> set (users d). Some (u_email u) = email b"
proof -
  assume ok: "status (snd (login e d b)) = 200"
  then obtain em where em: "email b = Some em"
    by (cases "email b") (auto simp: login_def)
  have "filter (\<lambda>u. Some (u_email u) = Some em) (users d) \<noteq> []"
  proof
    assume "filter (\<lambda>u. Some (u_email u) = Some em) (users d) = []"
    with ok em show False
      by (auto simp: login_def select_users_by_email_def split: option.splits if_splits)
  qed
  then obtain u where "u \<in> set (users d)" "Some (u_email u) = Some em"
    unfolding filter_empty_conv by blast
  with em show ?thesis by auto
qed

lemma login_unknown_user:
  assumes "endsWith em ''@nextest.com.br''" and "dbFails e 0 = None"
      and "\<forall>u \<in> set (users d). u_email u \<noteq> em"
  shows "login e d \<lparr>email = Some em, code = c\<rparr> =
           (d, \<lparr>status = 404, json = Message msg_user_not_found\<rparr>)"
proof -
  from assms(3) have "filter (\<lambda>u. Some (u_email u) = Some em) (users d) = []"
    by (auto simp: filter_empty_conv)
  with assms(1,2) endsWith_nonempty [OF assms(1)] show ?thesis
    by (simp add: login_def select_users_by_email_def)
qed

section \<open>Steps and schedules\<close>

lemma verify_steps:
  "verify_step e b (verify_step e b (verify_step e b (d, s, At_select))) =
     (out_db (verify e d s b), out_session (verify e d s b), Answered (out_res (verify e d s b)))"
  by (simp add: verify_step_def verify_def Let_def update_used_def
      split: sum.splits list.splits)

lemma turn_step_First:
  "turn_step r1 r2 First c =
     (let vs = verify_step (fst r1) (snd r1) (shared c, first_session c, first_pc c)
      in c\<lparr>shared := fst vs, first_session := fst (snd vs), first_pc := snd (snd vs)\<rparr>)"
  by (simp add: turn_step_def Let_def split: prod.splits)

lemma turn_step_Second:
  "turn_step r1 r2 Second c =
     (let vs = verify_step (fst r2) (snd r2) (shared c, second_session c, second_pc c)
      in c\<lparr>shared := fst vs, second_session := fst (snd vs), second_pc := snd (snd vs)\<rparr>)"
  by (simp add: turn_step_def Let_def split: prod.splits)

lemma first_alone:
  "fold (turn_step (e1, b1) r2) [First, First, First]
     \<lparr>shared = d, first_session = s1, first_pc = At_select,
      second_session = s2, second_pc = p2\<rparr> =
   \<lparr>shared = out_db (verify e1 d s1 b1), first_session = out_session (verify e1 d s1 b1),
    first_pc = Answered (out_res (verify e1 d s1 b1)),
    second_session = s2, second_pc = p2\<rparr>"
  by (simp add: turn_step_First Let_def verify_steps)

lemma second_alone:
  "fold (turn_step r1 (e2, b2)) [Second, Second, Second]
     \<lparr>shared = d, first_session = s1, first_pc = p1,
      second_session = s2, second_pc = At_select\<rparr> =
   \<lparr>shared = out_db (verify e2 d s2 b2), first_session = s1, first_pc = p1,
    second_session = out_session (verify e2 d s2 b2),
    second_pc = Answered (out_res (verify e2 d s2 b2))\<rparr>"
  by (simp add: turn_step_Second Let_def verify_steps)

lemma interleave_first_then_second:
  "interleave [First, First, First, Second, Second, Second] (e1, b1) (e2, b2) (start d s1 s2) =
   \<lparr>shared = out_db (verify e2 (out_db (verify e1 d s1 b1)) s2 b2),
    first_session = out_session (verify e1 d s1 b1),
    first_pc = Answered (out_res (verify e1 d s1 b1)),
    second_session = out_session (verify e2 (out_db (verify e1 d s1 b1)) s2 b2),
    second_pc = Answered (out_res (verify e2 (out_db (verify e1 d s1 b1)) s2 b2))\<rparr>"
proof -
  have "interleave ([First, First, First] @ [Second, Second, Second]) (e1, b1) (e2, b2) (start d s1 s2)
      = fold (turn_step (e1, b1) (e2, b2)) [Second, Second, Second]
          (fold (turn_step (e1, b1) (e2, b2)) [First, First, First] (start d s1 s2))"
    unfolding interleave_def fold_append by simp
  then show ?thesis
    unfolding start_def first_alone second_alone by simp
qed

lemma marked_none_acceptable:
  assumes only: "\<forall>r \<in> set rows.
                   Some (vc_email r) = em \<and> Some (vc_code r) = c \<and> \<not> vc_used r
                     \<longrightarrow> vc_id r = i"
  shows "\<forall>r \<in> set (map (\<lambda>r. if vc_id r = i then r\<lparr>vc_used := True\<rparr> else r) rows).
           \<not> (Some (vc_email r) = em \<and> Some (vc_code r) = c \<and> \<not> vc_used r \<and> t < vc_expiresAt r)"
proof
  fix r'
  assume "r' \<in> set (map (\<lambda>r. if vc_id r = i then r\<lparr>vc_used := True\<rparr> else r) rows)"
  then obtain r where r: "r \<in> set rows"
    and r': "r' = (if vc_id r = i then r\<lparr>vc_used := True\<rparr> else r)"
    by auto
  show "\<not> (Some (vc_email r') = em \<and> Some (vc_code r') = c \<and> \<not> vc_used r' \<and> t < vc_expiresAt r')"
  proof (cases "vc_id r = i")
    case True
    with r' show ?thesis by simp
  next
    case False
    with r' have "r' = r" by simp
    with False only r show ?thesis by auto
  qed
qed

text \<open>
  The first request has read and marked its row; the second has not read yet. From here
  on every schedule leads to the same answers.
\<close>

lemma after_read_and_write:
  assumes f1: "dbFails e1 2 = None" and f2: "dbFails e2 0 = None"
      and none: "\<forall>r \<in> set (verificationCodes d1).
           \<not> (Some (vc_email r) = email b \<and> Some (vc_code r) = code b \<and>
              \<not> vc_used r \<and> now e2 < vc_expiresAt r)"
      and c: "shared c = d1"
        "first_pc c = At_user \<or> first_pc c = Answered \<lparr>status = 200, json = UserJson u\<rparr>"
        "second_pc c = At_select \<or>
         second_pc c = Answered \<lparr>status = 400, json = Message msg_invalid_code\<rparr>"
      and u: "u = (case filter (\<lambda>v. Some (u_email v) = email b) (users d1) of
                     [] \<Rightarrow> None | v # _ \<Rightarrow> Some v)"
  shows "shared (fold (turn_step (e1, b) (e2, b)) sched c) = d1 \<and>
         (first_pc (fold (turn_step (e1, b) (e2, b)) sched c) = At_user \<and>
            First \<notin> set sched \<and> first_pc c = At_user \<or>
          first_pc (fold (turn_step (e1, b) (e2, b)) sched c) =
            Answered \<lparr>status = 200, json = UserJson u\<rparr>) \<and>
         (second_pc (fold (turn_step (e1, b) (e2, b)) sched c) = At_select \<and>
            Second \<notin> set sched \<and> second_pc c = At_select \<or>
          second_pc (fold (turn_step (e1, b) (e2, b)) sched c) =
            Answered \<lparr>status = 400, json = Message msg_invalid_code\<rparr>)"
  using c
proof (induction sched arbitrary: c)
  case Nil
  then show ?case by auto
next
  case (Cons t sched)
  let ?c' = "turn_step (e1, b) (e2, b) t c"
  from none have empty: "filter (\<lambda>r. Some (vc_email r) = email b \<and> Some (vc_code r) = code b \<and>
                            vc_used r = False \<and> vc_expiresAt r > now e2) (verificationCodes d1) = []"
    by (auto simp: filter_empty_conv)
  have step: "shared ?c' = d1 \<and>
     (first_pc ?c' = At_user \<and> t \<noteq> First \<and> first_pc c = At_user \<or>
      first_pc ?c' = Answered \<lparr>status = 200, json = UserJson u\<rparr>) \<and>
     (second_pc ?c' = At_select \<and> t \<noteq> Second \<and> second_pc c = At_select \<or>
      second_pc ?c' = Answered \<lparr>status = 400, json = Message msg_invalid_code\<rparr>)"
  proof (cases t)
    case First
    with Cons.prems f1 u show ?thesis
      by (auto simp: turn_step_def verify_step_def select_users_by_email_def Let_def)
  next
    case Second
    with Cons.prems f2 empty show ?thesis
      by (auto simp: turn_step_def verify_step_def select_verificationCodes_def)
  qed
  then have "shared ?c' = d1"
    "first_pc ?c' = At_user \<or> first_pc ?c' = Answered \<lparr>status = 200, json = UserJson u\<rparr>"
    "second_pc ?c' = At_select \<or>
         second_pc ?c' = Answered \<lparr>status = 400, json = Message msg_invalid_code\<rparr>"
    by auto
  from Cons.IH [OF this] step show ?case by auto
qed

lemma turn_step_mirror:
  "turn_step r2 r1 (other t) (mirror c) = mirror (turn_step r1 r2 t c)"
  by (cases t) (simp_all add: turn_step_def mirror_def split: prod.splits)

lemma interleave_mirror:
  "interleave (map other sched) r2 r1 (mirror c) = mirror (interleave sched r1 r2 c)"
  unfolding interleave_def
  by (induction sched arbitrary: c) (simp_all add: turn_step_mirror)

lemma mirror_mirror: "mirror (mirror c) = c"
  by (simp add: mirror_def)

lemma mirror_start: "mirror (start d s1 s2) = start d s2 s1"
  by (simp add: mirror_def start_def)

lemma read_and_write_first:
  assumes ok: "\<forall>k. dbFails e1 k = None" and sel: "dbFails e2 0 = None"
      and x: "x \<in> set (verificationCodes d)" "Some (vc_email x) = email b"
        "Some (vc_code x) = code b" "\<not> vc_used x" "now e1 < vc_expiresAt x"
      and only: "\<forall>r \<in> set (verificationCodes d).
                   Some (vc_email r) = email b \<and> Some (vc_code r) = code b \<and> \<not> vc_used r
                     \<longrightarrow> vc_id r = vc_id x"
      and rest: "First \<in> set rest" "Second \<in> set rest"
  shows "(\<exists>u. first_pc (interleave (First # First # rest) (e1, b) (e2, b) (start d s1 s2)) =
               Answered \<lparr>status = 200, json = UserJson u\<rparr>) \<and>
         second_pc (interleave (First # First # rest) (e1, b) (e2, b) (start d s1 s2)) =
           Answered \<lparr>status = 400, json = Message msg_invalid_code\<rparr>"
proof -
  let ?P = "\<lambda>r. Some (vc_email r) = email b \<and> Some (vc_code r) = code b \<and>
                 vc_used r = False \<and> vc_expiresAt r > now e1"
  from x have "filter ?P (verificationCodes d) \<noteq> []"
    unfolding filter_empty_conv by blast
  then obtain y ys where f: "filter ?P (verificationCodes d) = y # ys"
    by (cases "filter ?P (verificationCodes d)") auto
  from filter_eq_ConsD [OF f] only have id: "vc_id y = vc_id x" by blast
  define d1 where "d1 = d\<lparr>verificationCodes :=
      map (\<lambda>r. if vc_id r = vc_id x then r\<lparr>vc_used := True\<rparr> else r) (verificationCodes d)\<rparr>"
  define c2 where "c2 = fold (turn_step (e1, b) (e2, b)) [First, First] (start d s1 s2)"
  define u where "u = (case filter (\<lambda>v. Some (u_email v) = email b) (users d1) of
                     [] \<Rightarrow> None | v # _ \<Rightarrow> Some v)"
  from ok f id have c2: "shared c2 = d1" "first_pc c2 = At_user" "second_pc c2 = At_select"
    by (simp_all add: c2_def d1_def start_def turn_step_def verify_step_def
        select_verificationCodes_def update_used_def)
  from marked_none_acceptable [OF only, of "now e2"]
  have none: "\<forall>r \<in> set (verificationCodes d1).
           \<not> (Some (vc_email r) = email b \<and> Some (vc_code r) = code b \<and>
              \<not> vc_used r \<and> now e2 < vc_expiresAt r)"
    by (simp add: d1_def)
  from ok have f1: "dbFails e1 2 = None" by blast
  have "interleave (First # First # rest) (e1, b) (e2, b) (start d s1 s2) =
          fold (turn_step (e1, b) (e2, b)) rest c2"
    by (simp add: interleave_def c2_def)
  with after_read_and_write [OF f1 sel none c2(1) _ _ u_def, of rest] c2 rest
  show ?thesis by auto
qed

section \<open>Runs on the example data\<close>

lemma after_first:
  "run [Login env_later ana_login] (out_db (verify env0 db_one None ana_verify)) =
     \<lparr>users = [ana],
      verificationCodes =
        [ana_code\<lparr>vc_used := True\<rparr>,
         \<lparr>vc_id = ''c-3'', vc_email = ''ana@nextest.com.br'', vc_code = ''325000'',
          vc_expiresAt = 602000, vc_used = False, vc_createdAt = 1000\<rparr>]\<rparr>"
  by (simp add: run_def verify_def login_def select_verificationCodes_def update_used_def
      select_users_by_email_def insert_verificationCode_def sendVerificationCode_def
      env0_def env_later_def db_one_def ana_code_def ana_verify_def ana_login_def ana_def
      endsWith_def Let_def generateVerificationCode_quarter)

section \<open>The claims\<close>

text \<open>
  C1, as amended. After a verification succeeds, the row it matched is marked used and
  stays used through every later login and verify request, so that row is never matched
  again: a later attempt with the same email and code answers 400 with the invalid or
  expired message whenever every row acceptable for the pair at that time has the id of
  the matched row (that is, there is no other such row).
\<close>

theorem verify_succeeds_once_per_row:
  assumes "status (out_res (verify e d s b)) = 200"
  shows "\<exists>x \<in> set (verificationCodes d).
           Some (vc_email x) = email b \<and> Some (vc_code x) = code b \<and>
           \<not> vc_used x \<and> now e < vc_expiresAt x \<and>
           (\<forall>cs (e2 :: env) s2.
              (\<forall>r \<in> set (verificationCodes (run cs (out_db (verify e d s b)))).
                 vc_id r = vc_id x \<longrightarrow> vc_used r) \<and>
              (dbFails e2 0 = None \<and>
               (\<forall>r \<in> set (verificationCodes (run cs (out_db (verify e d s b)))).
                  Some (vc_email r) = email b \<and> Some (vc_code r) = code b \<and>
                  \<not> vc_used r \<and> now e2 < vc_expiresAt r \<longrightarrow> vc_id r = vc_id x) \<longrightarrow>
               verify e2 (run cs (out_db (verify e d s b))) s2 b =
                 \<lparr>out_db = run cs (out_db (verify e d s b)), out_session = s2,
                  out_res = \<lparr>status = 400, json = Message msg_invalid_code\<rparr>\<rparr>))"
proof -
  from verify_ok_rows [OF assms] obtain x where
    x: "x \<in> set (verificationCodes d)" "Some (vc_email x) = email b"
      "Some (vc_code x) = code b" "\<not> vc_used x" "now e < vc_expiresAt x"
    and rows: "verificationCodes (out_db (verify e d s b)) =
           map (\<lambda>r. if vc_id r = vc_id x then r\<lparr>vc_used := True\<rparr> else r) (verificationCodes d)"
    by blast
  have c: "spent (vc_id x) (verificationCodes (run cs (out_db (verify e d s b))))" for cs
    using mark_spent [OF x(1)] rows by (intro spent_run) simp
  have "\<forall>cs (e2 :: env) s2.
              (\<forall>r \<in> set (verificationCodes (run cs (out_db (verify e d s b)))).
                 vc_id r = vc_id x \<longrightarrow> vc_used r) \<and>
              (dbFails e2 0 = None \<and>
               (\<forall>r \<in> set (verificationCodes (run cs (out_db (verify e d s b)))).
                  Some (vc_email r) = email b \<and> Some (vc_code r) = code b \<and>
                  \<not> vc_used r \<and> now e2 < vc_expiresAt r \<longrightarrow> vc_id r = vc_id x) \<longrightarrow>
               verify e2 (run cs (out_db (verify e d s b))) s2 b =
                 \<lparr>out_db = run cs (out_db (verify e d s b)), out_session = s2,
                  out_res = \<lparr>status = 400, json = Message msg_invalid_code\<rparr>\<rparr>)"
  proof (intro allI conjI impI)
    fix cs and e2 :: env and s2
    show u: "\<forall>r \<in> set (verificationCodes (run cs (out_db (verify e d s b)))).
                 vc_id r = vc_id x \<longrightarrow> vc_used r"
      using c [of cs] by (simp add: spent_def)
    assume h: "dbFails e2 0 = None \<and>
               (\<forall>r \<in> set (verificationCodes (run cs (out_db (verify e d s b)))).
                  Some (vc_email r) = email b \<and> Some (vc_code r) = code b \<and>
                  \<not> vc_used r \<and> now e2 < vc_expiresAt r \<longrightarrow> vc_id r = vc_id x)"
    show "verify e2 (run cs (out_db (verify e d s b))) s2 b =
                 \<lparr>out_db = run cs (out_db (verify e d s b)), out_session = s2,
                  out_res = \<lparr>status = 400, json = Message msg_invalid_code\<rparr>\<rparr>"
      using h u by (intro verify_rejects) blast+
  qed
  with x show ?thesis by blast
qed


theorem verify_succeeds_once_per_row_witness:
  "status (out_res (verify env0 db_one None ana_verify)) = 200 \<and>
   out_res (verify env_later
       (run [Login env_later ana_login] (out_db (verify env0 db_one None ana_verify)))
       None ana_verify) =
     \<lparr>status = 400, json = Message msg_invalid_code\<rparr>"
proof -
  let ?d2 = "run [Login env_later ana_login] (out_db (verify env0 db_one None ana_verify))"
  have h: "status (out_res (verify env0 db_one None ana_verify)) = 200"
    by (simp add: verify_def select_verificationCodes_def update_used_def
        select_users_by_email_def env0_def db_one_def ana_code_def ana_verify_def Let_def)
  from verify_succeeds_once_per_row [OF h] obtain x where
    x: "x \<in> set (verificationCodes db_one)"
    and later: "\<And>cs (e2 :: env) s2.
              dbFails e2 0 = None \<and>
               (\<forall>r \<in> set (verificationCodes
                     (run cs (out_db (verify env0 db_one None ana_verify)))).
                  Some (vc_email r) = email ana_verify \<and> Some (vc_code r) = code ana_verify \<and>
                  \<not> vc_used r \<and> now e2 < vc_expiresAt r \<longrightarrow> vc_id r = vc_id x) \<Longrightarrow>
               verify e2 (run cs (out_db (verify env0 db_one None ana_verify))) s2 ana_verify =
                 \<lparr>out_db = run cs (out_db (verify env0 db_one None ana_verify)),
                  out_session = s2,
                  out_res = \<lparr>status = 400, json = Message msg_invalid_code\<rparr>\<rparr>"
    by blast
  from x have x': "x = ana_code" by (simp add: db_one_def)
  have "dbFails env_later 0 = None \<and>
        (\<forall>r \<in> set (verificationCodes ?d2).
           Some (vc_email r) = email ana_verify \<and> Some (vc_code r) = code ana_verify \<and>
           \<not> vc_used r \<and> now env_later < vc_expiresAt r \<longrightarrow> vc_id r = vc_id x)"
    unfolding after_first x' by (simp add: env_later_def env0_def ana_verify_def)
  from later [OF this, of None] h show ?thesis by simp
qed

text \<open>
  C1, as stated, fails: after a successful verification a later login may draw the same
  code for the same email, and the next attempt with the same email and code succeeds
  through the new row.
\<close>

theorem verify_again_after_same_draw:
  "status (out_res (verify env0 db_one None ana_verify)) = 200 \<and>
   status (out_res (verify env_same_draw
       (run [Login env_same_draw ana_login] (out_db (verify env0 db_one None ana_verify)))
       None ana_verify)) = 200"
  by (simp add: run_def verify_def login_def select_verificationCodes_def update_used_def
      select_users_by_email_def insert_verificationCode_def sendVerificationCode_def
      env0_def env_same_draw_def db_one_def ana_code_def ana_verify_def ana_login_def ana_def
      endsWith_def Let_def generateVerificationCode_half)

text \<open>
  C2. Verification succeeds only if some stored row has the requested email, exactly the
  submitted code, the used flag false and an expiry strictly after the current time; so
  a code whose expiry has elapsed never verifies. When no database call fails, such a
  row is also enough. With unique row ids, the only row the attempt changes is such a
  row, and the change sets its used flag.
\<close>

theorem verify_accepts_iff:
  "(status (out_res (verify e d s b)) = 200 \<longrightarrow>
      (\<exists>r \<in> set (verificationCodes d).
         Some (vc_email r) = email b \<and> Some (vc_code r) = code b \<and>
         \<not> vc_used r \<and> now e < vc_expiresAt r)) \<and>
   ((\<forall>k. dbFails e k = None) \<and>
      (\<exists>r \<in> set (verificationCodes d).
         Some (vc_email r) = email b \<and> Some (vc_code r) = code b \<and>
         \<not> vc_used r \<and> now e < vc_expiresAt r) \<longrightarrow>
      status (out_res (verify e d s b)) = 200) \<and>
   (distinct (map vc_id (verificationCodes d)) \<longrightarrow>
      length (verificationCodes (out_db (verify e d s b))) = length (verificationCodes d) \<and>
      (\<forall>i < length (verificationCodes d).
         verificationCodes (out_db (verify e d s b)) ! i \<noteq> verificationCodes d ! i \<longrightarrow>
           Some (vc_email (verificationCodes d ! i)) = email b \<and>
           Some (vc_code (verificationCodes d ! i)) = code b \<and>
           \<not> vc_used (verificationCodes d ! i) \<and>
           now e < vc_expiresAt (verificationCodes d ! i) \<and>
           verificationCodes (out_db (verify e d s b)) ! i =
             (verificationCodes d ! i)\<lparr>vc_used := True\<rparr>))"
proof (intro conjI impI)
  assume "status (out_res (verify e d s b)) = 200"
  from verify_ok_rows [OF this]
  show "\<exists>r \<in> set (verificationCodes d).
         Some (vc_email r) = email b \<and> Some (vc_code r) = code b \<and>
         \<not> vc_used r \<and> now e < vc_expiresAt r"
    by blast
next
  assume "(\<forall>k. dbFails e k = None) \<and>
      (\<exists>r \<in> set (verificationCodes d).
         Some (vc_email r) = email b \<and> Some (vc_code r) = code b \<and>
         \<not> vc_used r \<and> now e < vc_expiresAt r)"
  then obtain u where "out_res (verify e d s b) = \<lparr>status = 200, json = UserJson u\<rparr>"
    using verify_accepts [of e d b s] by blast
  then show "status (out_res (verify e d s b)) = 200" by simp
next
  assume "distinct (map vc_id (verificationCodes d))"
  from verify_rows [of e d s b]
  show "length (verificationCodes (out_db (verify e d s b))) = length (verificationCodes d)"
    by auto
next
  assume pk: "distinct (map vc_id (verificationCodes d))"
  let ?rows = "verificationCodes d" and ?rows' = "verificationCodes (out_db (verify e d s b))"
  show "\<forall>i < length ?rows. ?rows' ! i \<noteq> ?rows ! i \<longrightarrow>
           Some (vc_email (?rows ! i)) = email b \<and> Some (vc_code (?rows ! i)) = code b \<and>
           \<not> vc_used (?rows ! i) \<and> now e < vc_expiresAt (?rows ! i) \<and>
           ?rows' ! i = (?rows ! i)\<lparr>vc_used := True\<rparr>"
  proof (intro allI impI)
    fix i
    assume i: "i < length ?rows" and ne: "?rows' ! i \<noteq> ?rows ! i"
    from verify_rows [of e d s b] ne obtain x where
      x: "x \<in> set ?rows" "Some (vc_email x) = email b" "Some (vc_code x) = code b"
        "\<not> vc_used x" "now e < vc_expiresAt x"
      and rows': "?rows' = map (\<lambda>r. if vc_id r = vc_id x then r\<lparr>vc_used := True\<rparr> else r) ?rows"
      by auto
    from marked_rows_changed [OF pk x(1) i] ne rows' have eq: "?rows ! i = x" by simp
    with i rows' have "?rows' ! i = (?rows ! i)\<lparr>vc_used := True\<rparr>" by simp
    with eq x show "Some (vc_email (?rows ! i)) = email b \<and> Some (vc_code (?rows ! i)) = code b \<and>
           \<not> vc_used (?rows ! i) \<and> now e < vc_expiresAt (?rows ! i) \<and>
           ?rows' ! i = (?rows ! i)\<lparr>vc_used := True\<rparr>"
      by simp
  qed
qed

theorem verify_accepts_iff_witness:
  "status (out_res (verify env0 db_one None ana_verify)) = 200 \<and>
   status (out_res (verify env_expired db_one None ana_verify)) \<noteq> 200 \<and>
   verificationCodes (out_db (verify env0 db_one None ana_verify)) =
     [ana_code\<lparr>vc_used := True\<rparr>]"
proof -
  have a: "\<forall>k. dbFails env0 k = None" by (simp add: env0_def)
  have b: "\<exists>r \<in> set (verificationCodes db_one).
         Some (vc_email r) = email ana_verify \<and> Some (vc_code r) = code ana_verify \<and>
         \<not> vc_used r \<and> now env0 < vc_expiresAt r"
    by (simp add: db_one_def ana_code_def ana_verify_def env0_def)
  have c: "\<not> (\<exists>r \<in> set (verificationCodes db_one).
         Some (vc_email r) = email ana_verify \<and> Some (vc_code r) = code ana_verify \<and>
         \<not> vc_used r \<and> now env_expired < vc_expiresAt r)"
    by (simp add: db_one_def ana_code_def ana_verify_def env_expired_def env0_def)
  have d: "distinct (map vc_id (verificationCodes db_one))" by (simp add: db_one_def)
  have e: "verificationCodes db_one = [ana_code]" by (simp add: db_one_def)
  from verify_accepts_iff [of env0 db_one None ana_verify] a b
  have 1: "status (out_res (verify env0 db_one None ana_verify)) = 200" by blast
  from verify_accepts_iff [of env_expired db_one None ana_verify] c
  have 2: "status (out_res (verify env_expired db_one None ana_verify)) \<noteq> 200" by blast
  have 3: "verificationCodes (out_db (verify env0 db_one None ana_verify)) =
     [ana_code\<lparr>vc_used := True\<rparr>]"
    by (simp add: verify_def select_verificationCodes_def update_used_def
        select_users_by_email_def env0_def db_one_def ana_code_def ana_verify_def Let_def)
  from 1 2 3 show ?thesis by blast
qed

text \<open>
  C3, as amended. Take two attempts with the same still-valid pair, and let the rows
  that match the pair and are not used all have one id. Whenever one attempt has read
  and marked its row before the other reads (its first two steps come first, as when the
  attempts run one after the other), however the remaining steps interleave, that attempt
  is answered 200 and the other 400 with the invalid or expired message.
\<close>

theorem verifications_accept_once_without_overlap:
  assumes "\<forall>k. dbFails e1 k = None" and "\<forall>k. dbFails e2 k = None"
      and "x \<in> set (verificationCodes d)"
      and "Some (vc_email x) = email b" and "Some (vc_code x) = code b" and "\<not> vc_used x"
      and "now e1 < vc_expiresAt x" and "now e2 < vc_expiresAt x"
      and "\<forall>r \<in> set (verificationCodes d).
             Some (vc_email r) = email b \<and> Some (vc_code r) = code b \<and> \<not> vc_used r
               \<longrightarrow> vc_id r = vc_id x"
  shows "\<forall>rest. First \<in> set rest \<and> Second \<in> set rest \<longrightarrow>
           (\<exists>u. first_pc (interleave (First # First # rest)
                    (e1, b) (e2, b) (start d s1 s2)) =
                 Answered \<lparr>status = 200, json = UserJson u\<rparr>) \<and>
           second_pc (interleave (First # First # rest) (e1, b) (e2, b) (start d s1 s2)) =
             Answered \<lparr>status = 400, json = Message msg_invalid_code\<rparr> \<and>
           (\<exists>u. second_pc (interleave (Second # Second # rest)
                    (e1, b) (e2, b) (start d s1 s2)) =
                 Answered \<lparr>status = 200, json = UserJson u\<rparr>) \<and>
           first_pc (interleave (Second # Second # rest) (e1, b) (e2, b) (start d s1 s2)) =
             Answered \<lparr>status = 400, json = Message msg_invalid_code\<rparr>"
proof (intro allI impI)
  fix rest
  assume rest: "First \<in> set rest \<and> Second \<in> set rest"
  from assms(1,2) have s: "dbFails e1 0 = None" "dbFails e2 0 = None" by blast+
  have a: "(\<exists>u. first_pc (interleave (First # First # rest)
                    (e1, b) (e2, b) (start d s1 s2)) =
                 Answered \<lparr>status = 200, json = UserJson u\<rparr>) \<and>
           second_pc (interleave (First # First # rest) (e1, b) (e2, b) (start d s1 s2)) =
             Answered \<lparr>status = 400, json = Message msg_invalid_code\<rparr>"
    using read_and_write_first [OF assms(1) s(2) assms(3,4,5,6,7,9)] rest by blast
  from rest have rest': "First \<in> set (map other rest)" "Second \<in> set (map other rest)"
    by (force simp: image_iff)+
  have "interleave (Second # Second # rest) (e1, b) (e2, b) (start d s1 s2) =
          mirror (interleave (First # First # map other rest) (e2, b) (e1, b) (start d s2 s1))"
    using interleave_mirror [of "Second # Second # rest" "(e2, b)" "(e1, b)" "mirror (start d s2 s1)"]
    by (simp add: mirror_mirror mirror_start)
  moreover have "(\<exists>u. first_pc (interleave (First # First # map other rest)
                    (e2, b) (e1, b) (start d s2 s1)) =
                 Answered \<lparr>status = 200, json = UserJson u\<rparr>) \<and>
           second_pc (interleave (First # First # map other rest) (e2, b) (e1, b) (start d s2 s1)) =
             Answered \<lparr>status = 400, json = Message msg_invalid_code\<rparr>"
    using read_and_write_first [OF assms(2) s(1) assms(3,4,5,6,8,9) rest'] .
  ultimately have b: "(\<exists>u. second_pc (interleave (Second # Second # rest)
                    (e1, b) (e2, b) (start d s1 s2)) =
                 Answered \<lparr>status = 200, json = UserJson u\<rparr>) \<and>
           first_pc (interleave (Second # Second # rest) (e1, b) (e2, b) (start d s1 s2)) =
             Answered \<lparr>status = 400, json = Message msg_invalid_code\<rparr>"
    by (simp add: mirror_def)
  from a b show "(\<exists>u. first_pc (interleave (First # First # rest)
                    (e1, b) (e2, b) (start d s1 s2)) =
                 Answered \<lparr>status = 200, json = UserJson u\<rparr>) \<and>
           second_pc (interleave (First # First # rest) (e1, b) (e2, b) (start d s1 s2)) =
             Answered \<lparr>status = 400, json = Message msg_invalid_code\<rparr> \<and>
           (\<exists>u. second_pc (interleave (Second # Second # rest)
                    (e1, b) (e2, b) (start d s1 s2)) =
                 Answered \<lparr>status = 200, json = UserJson u\<rparr>) \<and>
           first_pc (interleave (Second # Second # rest) (e1, b) (e2, b) (start d s1 s2)) =
             Answered \<lparr>status = 400, json = Message msg_invalid_code\<rparr>"
    by blast
qed

theorem verifications_accept_once_without_overlap_witness:
  "first_pc (interleave [First, First, Second, First, Second, Second]
       (env0, ana_verify) (env_later, ana_verify) (start db_one None None)) =
     Answered \<lparr>status = 200, json = UserJson (Some ana)\<rparr> \<and>
   second_pc (interleave [First, First, Second, First, Second, Second]
       (env0, ana_verify) (env_later, ana_verify) (start db_one None None)) =
     Answered \<lparr>status = 400, json = Message msg_invalid_code\<rparr>"
proof -
  have f: "\<forall>k. dbFails env0 k = None" "\<forall>k. dbFails env_later k = None"
    by (simp_all add: env0_def env_later_def)
  have x: "ana_code \<in> set (verificationCodes db_one)"
    "Some (vc_email ana_code) = email ana_verify" "Some (vc_code ana_code) = code ana_verify"
    "\<not> vc_used ana_code" "now env0 < vc_expiresAt ana_code"
    "now env_later < vc_expiresAt ana_code"
    by (simp_all add: db_one_def ana_code_def ana_verify_def env0_def env_later_def)
  have only: "\<forall>r \<in> set (verificationCodes db_one).
             Some (vc_email r) = email ana_verify \<and> Some (vc_code r) = code ana_verify \<and>
             \<not> vc_used r \<longrightarrow> vc_id r = vc_id ana_code"
    by (simp add: db_one_def)
  have u: "first_pc (interleave [First, First, Second, First, Second, Second]
       (env0, ana_verify) (env_later, ana_verify) (start db_one None None)) =
     Answered \<lparr>status = 200, json = UserJson (Some ana)\<rparr>"
    by (simp add: interleave_def turn_step_def verify_step_def start_def env0_def
        env_later_def ana_verify_def db_one_def ana_code_def select_verificationCodes_def
        update_used_def select_users_by_email_def ana_def Let_def)
  have r: "First \<in> set [Second, First, Second, Second] \<and>
           Second \<in> set [Second, First, Second, Second]" by simp
  from verifications_accept_once_without_overlap [OF f x only, of None None] r
  have "second_pc (interleave (First # First # [Second, First, Second, Second])
       (env0, ana_verify) (env_later, ana_verify) (start db_one None None)) =
     Answered \<lparr>status = 400, json = Message msg_invalid_code\<rparr>"
    by blast
  with u show ?thesis by simp
qed

text \<open>
  C3, as stated, fails: the handler reads the matching row and marks it in two separate
  awaited calls. When both requests read before either marks, both are answered 200.
\<close>

theorem both_accepted_when_interleaved:
  "first_pc (interleave [First, Second, First, Second, First, Second]
       (env0, ana_verify) (env_later, ana_verify) (start db_one None None)) =
     Answered \<lparr>status = 200, json = UserJson (Some ana)\<rparr> \<and>
   second_pc (interleave [First, Second, First, Second, First, Second]
       (env0, ana_verify) (env_later, ana_verify) (start db_one None None)) =
     Answered \<lparr>status = 200, json = UserJson (Some ana)\<rparr>"
  by (simp add: interleave_def turn_step_def verify_step_def start_def env0_def env_later_def
      ana_verify_def db_one_def ana_code_def select_verificationCodes_def update_used_def
      select_users_by_email_def ana_def Let_def)



text \<open>
  C5. For every email that does not end with \<^verbatim>\<open>@nextest.com.br\<close>, a missing or empty
  email included, login issuance answers 400 with the domain message and returns the
  database as it was: no row is persisted. The serverless handler, which has no
  database, answers 400 as well.
\<close>

theorem login_rejects_other_domains:
  assumes "\<forall>em. email b = Some em \<longrightarrow> \<not> endsWith em ''@nextest.com.br''"
  shows "login e d b = (d, \<lparr>status = 400, json = Message msg_domain\<rparr>) \<and>
         status (handler e \<lparr>method = ''POST'', pathname = Inr ''/api/auth/login'',
                            req_body = Some b\<rparr>) = 400"
  using assms by (auto simp: login_def handler_def split: option.splits)

theorem login_rejects_other_domains_witness:
  "\<not> endsWith ''ana@gmail.com'' ''@nextest.com.br'' \<and>
   login env0 db_empty \<lparr>email = Some ''ana@gmail.com'', code = None\<rparr>
     = (db_empty, \<lparr>status = 400, json = Message msg_domain\<rparr>) \<and>
   login env0 db_empty \<lparr>email = None, code = None\<rparr>
     = (db_empty, \<lparr>status = 400, json = Message msg_domain\<rparr>)"
  using login_rejects_other_domains
      [of "\<lparr>email = Some ''ana@gmail.com'', code = None\<rparr>" env0 db_empty]
    login_rejects_other_domains [of "\<lparr>email = None, code = None\<rparr>" env0 db_empty]
  by (simp add: endsWith_def)

text \<open>
  C6. Every string the code generator returns is exactly 6 characters long and consists
  only of the digits 0 to 9, for every draw of \<^verbatim>\<open>Math.random()\<close>: a double \<open>r\<close> with
  \<open>0 \<le> r < 1\<close>. The product and the sum are rounded as binary64 rounds them; the number
  under \<^verbatim>\<open>Math.floor\<close> stays between 100000 and 999999.
\<close>

theorem generateVerificationCode_six_digits:
  assumes "is_double r" and "0 \<le> r" and "r < 1"
  shows "length (generateVerificationCode r) = 6 \<and>
         (\<forall>c \<in> set (generateVerificationCode r). c \<in> set ''0123456789'')"
proof -
  define n where "n = \<lfloor>double_add 100000 (double_mul r 900000)\<rfloor>"
  from generated_number_range [OF assms] have n: "100000 \<le> n" "n \<le> 999999"
    unfolding n_def by blast+
  have "generateVerificationCode r = int_toString n"
    unfolding generateVerificationCode_def n_def ..
  also have "\<dots> = nat_toString (nat n)"
    using n(1) by (simp add: int_toString_def)
  finally have g: "generateVerificationCode r = nat_toString (nat n)" .
  have "(10::nat) ^ 5 = 100000" "(10::nat) ^ Suc 5 = 1000000" by simp_all
  with n have "10 ^ 5 \<le> nat n" "nat n < 10 ^ Suc 5" by linarith+
  then have "length (nat_toString (nat n)) = Suc 5" by (rule nat_toString_length)
  then have l: "length (generateVerificationCode r) = 6" by (simp only: g)
  have "\<forall>c \<in> set (generateVerificationCode r). c \<in> set ''0123456789''"
    unfolding g using nat_toString_digits [of "nat n"] by blast
  with l show ?thesis by blast
qed

theorem generateVerificationCode_six_digits_witness:
  "is_double (1 / 2) \<and> (0::real) \<le> 1 / 2 \<and> (1 / 2 :: real) < 1 \<and>
   length (generateVerificationCode (1 / 2)) = 6 \<and>
   set (generateVerificationCode (1 / 2)) \<subseteq> set ''0123456789''"
proof -
  have h: "is_double (1 / 2)" "(0::real) \<le> 1 / 2" "(1 / 2 :: real) < 1"
    by (simp_all add: is_double_half)
  from generateVerificationCode_six_digits [OF h] h show ?thesis by blast
qed

text \<open>
  C7. When login issuance answers 200, exactly one row has been added to the
  verification codes: its email is the requested one, its expiry is the issuance time
  plus 10 minutes (600000 ms) and it is not used. The users are as they were.
\<close>

theorem login_persists_one_code:
  assumes "login e d b = (d', r)" and "status r = 200"
  shows "\<exists>row em. email b = Some em \<and>
           verificationCodes d' = verificationCodes d @ [row] \<and> users d' = users d \<and>
           vc_email row = em \<and> vc_expiresAt row = now e + 600000 \<and> vc_used row = False"
  using assms
  by (auto simp: login_def select_users_by_email_def insert_verificationCode_def Let_def
      split: option.splits if_splits list.splits sum.splits)

theorem login_persists_one_code_witness:
  "login env0 db_empty ana_login = (db_one, \<lparr>status = 200, json = Message msg_sent\<rparr>) \<and>
   verificationCodes db_one = verificationCodes db_empty @ [ana_code] \<and>
   vc_expiresAt ana_code = now env0 + 600000 \<and> vc_used ana_code = False"
proof -
  have l: "login env0 db_empty ana_login =
             (db_one, \<lparr>status = 200, json = Message msg_sent\<rparr>)"
    by (simp add: login_def env0_def db_empty_def db_one_def ana_login_def ana_def
        ana_code_def select_users_by_email_def insert_verificationCode_def
        sendVerificationCode_def endsWith_def Let_def generateVerificationCode_half)
  have "status \<lparr>status = 200, json = Message msg_sent\<rparr> = 200" by simp
  from login_persists_one_code [OF l this] l show ?thesis
    by (auto simp: db_one_def db_empty_def)
qed

text \<open>
  C8. When verification finds no acceptable row, the answer is the same whatever the
  reason: two failing attempts, one with a wrong code and one whose code has expired or
  was used, get the same status and the same message.
\<close>

theorem verify_failure_uniform:
  assumes "dbFails e1 0 = None" and "dbFails e2 0 = None"
      and "\<forall>r \<in> set (verificationCodes d1).
             \<not> (Some (vc_email r) = email b1 \<and> Some (vc_code r) = code b1 \<and>
                \<not> vc_used r \<and> now e1 < vc_expiresAt r)"
      and "\<forall>r \<in> set (verificationCodes d2).
             \<not> (Some (vc_email r) = email b2 \<and> Some (vc_code r) = code b2 \<and>
                \<not> vc_used r \<and> now e2 < vc_expiresAt r)"
  shows "out_res (verify e1 d1 s1 b1) = out_res (verify e2 d2 s2 b2) \<and>
         out_res (verify e1 d1 s1 b1) = \<lparr>status = 400, json = Message msg_invalid_code\<rparr>"
  using verify_rejects [OF assms(1,3), of s1] verify_rejects [OF assms(2,4), of s2]
  by simp

theorem verify_failure_uniform_witness:
  "out_res (verify env0 db_one None ana_wrong_code) =
     out_res (verify env_expired db_one None ana_verify) \<and>
   out_res (verify env0 db_one None ana_wrong_code) =
     \<lparr>status = 400, json = Message msg_invalid_code\<rparr>"
proof -
  have f: "dbFails env0 0 = None" "dbFails env_expired 0 = None"
    by (simp_all add: env0_def env_expired_def)
  have wrong: "\<forall>r \<in> set (verificationCodes db_one).
             \<not> (Some (vc_email r) = email ana_wrong_code \<and>
                Some (vc_code r) = code ana_wrong_code \<and>
                \<not> vc_used r \<and> now env0 < vc_expiresAt r)"
    by (simp add: db_one_def ana_code_def ana_wrong_code_def)
  have expired: "\<forall>r \<in> set (verificationCodes db_one).
             \<not> (Some (vc_email r) = email ana_verify \<and>
                Some (vc_code r) = code ana_verify \<and>
                \<not> vc_used r \<and> now env_expired < vc_expiresAt r)"
    by (simp add: db_one_def ana_code_def env_expired_def env0_def)
  from verify_failure_uniform [OF f wrong expired] show ?thesis .
qed

text \<open>
  C9. In the serverless handler, a POST to \<^verbatim>\<open>/api/auth/verify\<close> whose body has a
  non-empty email and a code of exactly 6 characters, whatever they are, is answered 200
  with the fixed user (id 1, the email echoed back). The handler takes no database: no
  stored code is consulted.
\<close>

theorem mock_verify_accepts_any_six:
  assumes "method req = ''POST''" and "pathname req = Inr ''/api/auth/verify''"
      and "req_body req = Some b" and "email b = Some em" and "em \<noteq> []"
      and "code b = Some c" and "length c = 6"
  shows "handler e req =
           \<lparr>status = 200,
            json = MockVerified \<lparr>mu_id = ''1'', mu_name = mock_name, mu_email = em,
                     mu_department = ''TI''\<rparr> mock_logged_in\<rparr>"
  using assms by (auto simp: handler_def falsy_def)

theorem mock_verify_accepts_any_six_witness:
  "handler env0 mock_verify_request =
     \<lparr>status = 200,
      json = MockVerified \<lparr>mu_id = ''1'', mu_name = mock_name, mu_email = ''x'',
               mu_department = ''TI''\<rparr> mock_logged_in\<rparr>"
  using mock_verify_accepts_any_six
      [of mock_verify_request "\<lparr>email = Some ''x'', code = Some ''abcdef''\<rparr>" "''x''"
        "''abcdef''" env0]
  by (simp add: mock_verify_request_def)

text \<open>
  C10. Login issuance never reads the isActive flag; what it requires of the users is a
  row with exactly the requested email. For every user row whose email ends with the
  domain, issuance answers 200 and appends a code row (no database call failing, the
  fresh id not taken), whatever the flag. A 200 answer implies such a row, and when no
  row has the email (the lookup not failing) the answer is 404 and nothing is stored.
  Rewriting the flags of all users in any way changes neither the answer nor the rows
  stored.
\<close>

theorem login_ignores_isActive:
  "(u \<in> set (users d) \<and> endsWith (u_email u) ''@nextest.com.br'' \<and>
    (\<forall>k. dbFails e k = None) \<and> newId e \<notin> vc_id ` set (verificationCodes d) \<longrightarrow>
      status (snd (login e d \<lparr>email = Some (u_email u), code = c\<rparr>)) = 200 \<and>
      (\<exists>row. verificationCodes (fst (login e d \<lparr>email = Some (u_email u), code = c\<rparr>)) =
                verificationCodes d @ [row] \<and> vc_email row = u_email u)) \<and>
   (status (snd (login e d b)) = 200 \<longrightarrow>
      (\<exists>v \<in> set (users d). Some (u_email v) = email b)) \<and>
   (endsWith em ''@nextest.com.br'' \<and> dbFails e 0 = None \<and>
    (\<forall>v \<in> set (users d). u_email v \<noteq> em) \<longrightarrow>
      login e d \<lparr>email = Some em, code = c\<rparr> =
        (d, \<lparr>status = 404, json = Message msg_user_not_found\<rparr>)) \<and>
   login e (d\<lparr>users := map (\<lambda>v. v\<lparr>u_isActive := f v\<rparr>) (users d)\<rparr>) b =
     ((fst (login e d b))\<lparr>users := map (\<lambda>v. v\<lparr>u_isActive := f v\<rparr>) (users (fst (login e d b)))\<rparr>,
      snd (login e d b))"
proof (intro conjI impI)
  assume h: "u \<in> set (users d) \<and> endsWith (u_email u) ''@nextest.com.br'' \<and>
    (\<forall>k. dbFails e k = None) \<and> newId e \<notin> vc_id ` set (verificationCodes d)"
  then have "filter (\<lambda>v. u_email v = u_email u) (users d) \<noteq> []"
    by (auto simp: filter_empty_conv)
  then obtain v vs where v: "filter (\<lambda>v. u_email v = u_email u) (users d) = v # vs"
    by (cases "filter (\<lambda>v. u_email v = u_email u) (users d)") auto
  from h have ne: "u_email u \<noteq> []" by (auto dest: endsWith_nonempty)
  from h v ne show "status (snd (login e d \<lparr>email = Some (u_email u), code = c\<rparr>)) = 200"
    by (simp add: login_def select_users_by_email_def insert_verificationCode_def Let_def)
  from h v ne show "\<exists>row. verificationCodes (fst (login e d \<lparr>email = Some (u_email u), code = c\<rparr>)) =
                verificationCodes d @ [row] \<and> vc_email row = u_email u"
    by (simp add: login_def select_users_by_email_def insert_verificationCode_def Let_def)
next
  assume "status (snd (login e d b)) = 200"
  then show "\<exists>v \<in> set (users d). Some (u_email v) = email b"
    by (rule login_needs_user)
next
  assume "endsWith em ''@nextest.com.br'' \<and> dbFails e 0 = None \<and>
    (\<forall>v \<in> set (users d). u_email v \<noteq> em)"
  then show "login e d \<lparr>email = Some em, code = c\<rparr> =
        (d, \<lparr>status = 404, json = Message msg_user_not_found\<rparr>)"
    by (intro login_unknown_user) blast+
next
  show "login e (d\<lparr>users := map (\<lambda>v. v\<lparr>u_isActive := f v\<rparr>) (users d)\<rparr>) b =
     ((fst (login e d b))\<lparr>users := map (\<lambda>v. v\<lparr>u_isActive := f v\<rparr>) (users (fst (login e d b)))\<rparr>,
      snd (login e d b))"
    unfolding login_def select_users_isActive insert_isActive
    by (auto simp: Let_def select_users_by_email_def insert_verificationCode_def
        split: option.splits sum.splits list.splits)
qed

theorem login_ignores_isActive_witness:
  "u_isActive ana = False \<and>
   status (snd (login env0 db_empty ana_login)) = 200 \<and>
   verificationCodes (fst (login env0 db_empty ana_login)) = [ana_code] \<and>
   login env0 db_empty bia_login =
     (db_empty, \<lparr>status = 404, json = Message msg_user_not_found\<rparr>)"
proof -
  have h: "ana \<in> set (users db_empty) \<and> endsWith (u_email ana) ''@nextest.com.br'' \<and>
    (\<forall>k. dbFails env0 k = None) \<and> newId env0 \<notin> vc_id ` set (verificationCodes db_empty)"
    by (simp add: db_empty_def ana_def env0_def endsWith_def)
  have b: "\<lparr>email = Some (u_email ana), code = None\<rparr> = ana_login"
    by (simp add: ana_def ana_login_def)
  have r: "verificationCodes (fst (login env0 db_empty ana_login)) = [ana_code]"
    by (simp add: login_def env0_def db_empty_def ana_login_def ana_def ana_code_def
        select_users_by_email_def insert_verificationCode_def sendVerificationCode_def
        endsWith_def Let_def generateVerificationCode_half)
  have n: "endsWith ''bia@nextest.com.br'' ''@nextest.com.br'' \<and> dbFails env0 0 = None \<and>
    (\<forall>v \<in> set (users db_empty). u_email v \<noteq> ''bia@nextest.com.br'')"
    by (simp add: db_empty_def ana_def env0_def endsWith_def)
  from login_ignores_isActive [where u = ana and d = db_empty and e = env0 and c = None] h
  have 1: "status (snd (login env0 db_empty \<lparr>email = Some (u_email ana), code = None\<rparr>)) = 200"
    by blast
  from login_ignores_isActive
      [where d = db_empty and e = env0 and c = None and em = "''bia@nextest.com.br''"] n
  have 2: "login env0 db_empty \<lparr>email = Some ''bia@nextest.com.br'', code = None\<rparr> =
        (db_empty, \<lparr>status = 404, json = Message msg_user_not_found\<rparr>)"
    by blast
  from 1 2 b r show ?thesis by (simp add: ana_def bia_login_def)
qed

end
